theory Spec2Isabelle
  imports Complex_Main
begin

section \<open>Data model\<close>

text \<open>
  The simulation is written in Python on top of the agentpy library.  Agents are objects
  held in two lists of the model, \<open>model.workers\<close> and \<open>model.firms\<close>; an object
  reference is modelled by the position of the object in its list.  Python numbers are
  modelled by exact reals, so the rounding of binary floating point is not represented;
  the one non-numeric float the program can produce, the NaN that numpy's \<open>mean\<close>
  returns for an empty list, is a value of its own.
\<close>

datatype py_error = ZeroDivisionError | ValueError | IndexError | AttributeError

datatype pyfloat = Num real | NaN

text \<open>
  \<open>Worker.setup\<close> declares the attributes below up to \<open>switch\<close>.  The attribute
  \<open>switched\<close> is not declared by \<open>setup\<close>: it comes into existence when
  \<open>firm_selection\<close> assigns it, so it is \<open>None\<close> until then.
\<close>

record worker =
  d_class :: int
  prod_w :: real
  avg_prod :: real
  hrs :: real
  educ :: bool
  wage :: real
  employer :: "nat option"
  employer_id :: "nat option"
  employer_size :: "nat option"
  search :: bool
  switch :: bool
  switched :: "bool option"

record firm =
  d_factor :: real
  d_class_f :: int
  employees :: "nat list"
  size_f :: nat
  size_0 :: nat
  size_1 :: nat
  price :: real
  costs :: real
  revenue :: real
  profit :: real
  output_f :: real
  output_0 :: real
  output_1 :: real

text \<open>The options of the parameter dictionary \<open>model.p\<close> that the models read.\<close>

record params =
  steps :: nat
  n_workers :: nat
  prod_range :: "int \<times> int"
  d_range :: "real \<times> real"
  premium :: real
  weighted :: bool
  p_d_class :: int
  active :: real
  sample :: nat

text \<open>One row of recorded data per agent and call of \<open>record\<close>, in the order of the
  variable names given to \<open>record\<close>.\<close>

datatype worker_row =
  WorkerRow int real real "nat option" "nat option" "nat option" real bool bool bool

datatype firm_row =
  FirmRow real nat nat nat real real real real real real

record market =
  workers :: "worker list"
  firms :: "firm list"
  recorded :: "(worker_row list \<times> firm_row list) list"

section \<open>Firm\<close>

definition set_size :: "worker list \<Rightarrow> firm \<Rightarrow> firm" where
  "set_size ws f =
     f\<lparr>size_f := length (employees f),
       size_1 := length (filter (\<lambda>e. d_class (ws ! e) = 1) (employees f)),
       size_0 := length (filter (\<lambda>e. d_class (ws ! e) = 0) (employees f))\<rparr>"

definition hire :: "worker list \<Rightarrow> nat \<Rightarrow> firm \<Rightarrow> firm" where
  "hire ws w f =
     set_size ws (if w \<notin> set (employees f) then f\<lparr>employees := employees f @ [w]\<rparr> else f)"

definition separate :: "worker list \<Rightarrow> nat \<Rightarrow> firm \<Rightarrow> firm" where
  "separate ws w f =
     set_size ws (if w \<in> set (employees f) then f\<lparr>employees := remove1 w (employees f)\<rparr> else f)"

definition produce :: "worker list \<Rightarrow> firm \<Rightarrow> firm" where
  "produce ws f =
     f\<lparr>output_f := sum_list (map (\<lambda>e. prod_w (ws ! e) * hrs (ws ! e)) (employees f)),
       output_0 := sum_list (map (\<lambda>e. prod_w (ws ! e) * hrs (ws ! e))
                      (filter (\<lambda>e. d_class (ws ! e) = 0) (employees f))),
       output_1 := sum_list (map (\<lambda>e. prod_w (ws ! e) * hrs (ws ! e))
                      (filter (\<lambda>e. d_class (ws ! e) = 1) (employees f)))\<rparr>"

definition calc_profit :: "worker list \<Rightarrow> firm \<Rightarrow> firm" where
  "calc_profit ws f =
     (let rev = output_f f * price f;
          cst = sum_list (map (\<lambda>e. wage (ws ! e) * hrs (ws ! e)) (employees f))
      in f\<lparr>revenue := rev, costs := cst, profit := rev - cst\<rparr>)"

definition calc_wage :: "firm \<Rightarrow> worker \<Rightarrow> real" where
  "calc_wage f w =
     (let wg = price f * prod_w w
      in if d_class w = d_class_f f then wg * (1 - d_factor f) else wg)"

section \<open>The random source\<close>

text \<open>
  The model's random source is an input: a stream of naturals \<open>r\<close>, from which each
  draw takes what it needs.  \<open>random.choice(xs)\<close> picks \<open>xs[r 0 mod len(xs)]\<close> and
  raises IndexError on an empty sequence; \<open>random.sample(xs, n)\<close> picks \<open>n\<close>
  elements one after the other, without replacement, and raises ValueError when \<open>n\<close>
  exceeds the population.  Every result the library can return is the result for some
  stream.
\<close>

fun draw :: "(nat \<Rightarrow> nat) \<Rightarrow> 'a list \<Rightarrow> nat \<Rightarrow> 'a list" where
  "draw r xs 0 = []"
| "draw r xs (Suc n) =
     (let i = r 0 mod length xs
      in xs ! i # draw (\<lambda>k. r (Suc k)) (take i xs @ drop (Suc i) xs) n)"

definition choice :: "(nat \<Rightarrow> nat) \<Rightarrow> 'a list \<Rightarrow> py_error + 'a" where
  "choice r xs = (if xs = [] then Inl IndexError else Inr (xs ! (r 0 mod length xs)))"

definition random_sample :: "(nat \<Rightarrow> nat) \<Rightarrow> 'a list \<Rightarrow> int \<Rightarrow> py_error + 'a list" where
  "random_sample r xs n =
     (if n < 0 \<or> int (length xs) < n then Inl ValueError else Inr (draw r xs (nat n)))"

text \<open>agentpy's \<open>AgentList.random(n, replace=False)\<close>: a single agent is drawn with
  \<open>choice\<close>, several with \<open>sample\<close>.\<close>

definition agents_random :: "(nat \<Rightarrow> nat) \<Rightarrow> 'a list \<Rightarrow> int \<Rightarrow> py_error + 'a list" where
  "agents_random r xs n =
     (if n = 1 then (case choice r xs of Inl e \<Rightarrow> Inl e | Inr x \<Rightarrow> Inr [x])
      else random_sample r xs n)"

text \<open>\<open>random.randint(lo, hi)\<close> raises ValueError on an empty range.\<close>

definition randint :: "nat \<Rightarrow> int \<Rightarrow> int \<Rightarrow> py_error + int" where
  "randint r lo hi =
     (if hi < lo then Inl ValueError else Inr (lo + int (r mod nat (hi - lo + 1))))"

text \<open>\<open>random.uniform(a, b)\<close> is \<open>a + (b - a) * random()\<close> with \<open>random()\<close> in
  \<open>[0, 1)\<close>; the fractional part of the input \<open>u\<close> stands for \<open>random()\<close>.\<close>

definition uniform :: "real \<Rightarrow> real \<Rightarrow> real \<Rightarrow> real" where
  "uniform u a b = a + (b - a) * frac u"

text \<open>\<open>round(x, 2)\<close>: to two decimals, a tie going to the even neighbour.\<close>

definition round2 :: "real \<Rightarrow> real" where
  "round2 x =
     (let y = x * 100; fl = \<lfloor>y\<rfloor>; d = y - of_int fl
      in of_int (if d < 1 / 2 then fl else if 1 / 2 < d then fl + 1
                 else if even fl then fl else fl + 1) / 100)"

text \<open>A \<open>for\<close> loop over a list whose body may raise: the first error ends the loop.\<close>

fun for_each :: "('a \<Rightarrow> 's \<Rightarrow> py_error + 's) \<Rightarrow> 'a list \<Rightarrow> 's \<Rightarrow> py_error + 's" where
  "for_each body [] s = Inr s"
| "for_each body (x # xs) s =
     (case body x s of Inl e \<Rightarrow> Inl e | Inr s' \<Rightarrow> for_each body xs s')"

section \<open>Worker\<close>

text \<open>The worker \<open>self\<close> is the worker at position \<open>w\<close> of \<open>model.workers\<close>.\<close>

definition upd_worker :: "nat \<Rightarrow> (worker \<Rightarrow> worker) \<Rightarrow> market \<Rightarrow> market" where
  "upd_worker w g m = m\<lparr>workers := (workers m)[w := g (workers m ! w)]\<rparr>"

definition upd_firm :: "nat \<Rightarrow> (firm \<Rightarrow> firm) \<Rightarrow> market \<Rightarrow> market" where
  "upd_firm f g m = m\<lparr>firms := (firms m)[f := g (firms m ! f)]\<rparr>"

definition worker_setup :: "params \<Rightarrow> nat \<Rightarrow> nat \<Rightarrow> py_error + worker" where
  "worker_setup p rc rp =
     (case randint rp (fst (prod_range p)) (snd (prod_range p)) of
        Inl e \<Rightarrow> Inl e
      | Inr pr \<Rightarrow>
          Inr \<lparr>d_class = [1, 0] ! (rc mod 2),
               prod_w = of_int pr,
               avg_prod = (of_int (snd (prod_range p)) + of_int (fst (prod_range p))) / 2,
               hrs = 8, educ = False, wage = 0,
               employer = None, employer_id = None, employer_size = None,
               search = False, switch = False, switched = None\<rparr>)"

definition update_employer :: "nat \<Rightarrow> nat option \<Rightarrow> market \<Rightarrow> market" where
  "update_employer w firm m =
     (case firm of
        Some f \<Rightarrow>
          upd_worker w (\<lambda>me. me\<lparr>employer := Some f, employer_id := Some f,
                                 employer_size := Some (size_f (firms m ! f))\<rparr>) m
      | None \<Rightarrow>
          upd_worker w (\<lambda>me. me\<lparr>employer := None, employer_id := None,
                                 employer_size := None\<rparr>) m)"

definition switch_employer :: "nat \<Rightarrow> nat \<Rightarrow> market \<Rightarrow> market" where
  "switch_employer w f m =
     (let m1 = (case employer (workers m ! w) of
                  Some old \<Rightarrow> upd_firm old (separate (workers m) w) m
                | None \<Rightarrow> m);
          m2 = upd_firm f (hire (workers m1) w) m1
      in update_employer w (Some f) m2)"

text \<open>
  \<open>calc_avg_d\<close>.  In the weighted branch the divisor \<open>size\<close> is the sum of the sizes of
  the active firms, which is positive whenever there is a summand, so the division never
  raises; over no active firm both sums are empty and the result is \<open>0\<close>.  In the
  unweighted branch numpy's \<open>mean\<close> of an empty list is NaN (with a warning, not an
  exception).
\<close>

definition calc_avg_d :: "market \<Rightarrow> bool \<Rightarrow> pyfloat" where
  "calc_avg_d m wtd =
     (let fs = filter (\<lambda>f. 0 < size_f f) (firms m)
      in if wtd then
           (let sz = sum_list (map size_f fs)
            in Num (sum_list (map (\<lambda>f. d_factor f * (real (size_f f) / real sz)) fs)))
         else if fs = [] then NaN
         else Num (sum_list (map d_factor fs) / real (length fs)))"

definition get_education :: "nat \<Rightarrow> real \<Rightarrow> market \<Rightarrow> market" where
  "get_education w prem m =
     (let m1 = upd_worker w (\<lambda>me. me\<lparr>educ := True, prod_w := prod_w me * (1 + prem)\<rparr>) m
      in case employer (workers m1 ! w) of
           Some f \<Rightarrow> upd_worker w (\<lambda>me. me\<lparr>wage := calc_wage (firms m1 ! f) me\<rparr>) m1
         | None \<Rightarrow> m1)"

text \<open>The local variable \<open>benefit\<close> of \<open>education_decision\<close>, as it stands when the
  decision is taken.  Arithmetic on NaN gives NaN.\<close>

definition benefit :: "market \<Rightarrow> nat \<Rightarrow> real \<Rightarrow> bool \<Rightarrow> pyfloat" where
  "benefit m w prem wtd =
     (let me = workers m ! w; b = prod_w me * prem
      in if d_class me = 1 then
           (case calc_avg_d m wtd of Num d_avg \<Rightarrow> Num (b * (1 - d_avg)) | NaN \<Rightarrow> NaN)
         else Num b)"

text \<open>\<open>education_decision\<close>; \<open>coin\<close> is the stream that \<open>random.choice([True, False])\<close>
  reads if the tie-break is reached.  Every comparison with NaN is false.\<close>

definition education_decision ::
    "nat \<Rightarrow> real \<Rightarrow> bool \<Rightarrow> (nat \<Rightarrow> nat) \<Rightarrow> market \<Rightarrow> py_error + market" where
  "education_decision w prem wtd coin m =
     (let me = workers m ! w
      in if prod_w me = 0 then Inl ZeroDivisionError
         else
           (let cost = (avg_prod me)\<^sup>2 * prem / prod_w me
            in case benefit m w prem wtd of
                 NaN \<Rightarrow> Inr m
               | Num b \<Rightarrow>
                   if cost < b then Inr (get_education w prem m)
                   else if b = cost then
                     (if [True, False] ! (coin 0 mod 2) then Inr (get_education w prem m)
                      else Inr m)
                   else Inr m))"

definition select_firms :: "nat \<Rightarrow> nat \<Rightarrow> (nat \<Rightarrow> nat) \<Rightarrow> market \<Rightarrow> py_error + nat list" where
  "select_firms w n r m =
     agents_random r
       (filter (\<lambda>f. Some f \<noteq> employer_id (workers m ! w)) [0..<length (firms m)]) (int n)"

text \<open>Python's \<open>max\<close> of a list and \<open>list.index\<close>, the position of the first occurrence.\<close>

fun py_max :: "real list \<Rightarrow> real" where
  "py_max [] = 0"
| "py_max [x] = x"
| "py_max (x # y # ys) = (let m = py_max (y # ys) in if x < m then m else x)"

fun index :: "real list \<Rightarrow> real \<Rightarrow> nat" where
  "index [] v = 0"
| "index (x # xs) v = (if x = v then 0 else Suc (index xs v))"

text \<open>The list \<open>wages\<close> of \<open>rank_firms\<close>: the offer of each sampled firm to worker
  \<open>w\<close>.\<close>

definition wage_offers :: "market \<Rightarrow> nat \<Rightarrow> nat list \<Rightarrow> real list" where
  "wage_offers m w fs = map (\<lambda>f. calc_wage (firms m ! f) (workers m ! w)) fs"

text \<open>\<open>rank_firms\<close>; \<open>max\<close> of an empty list raises ValueError.\<close>

definition rank_firms ::
    "nat \<Rightarrow> nat \<Rightarrow> (nat \<Rightarrow> nat) \<Rightarrow> market \<Rightarrow> py_error + (nat \<times> real)" where
  "rank_firms w n r m =
     (case select_firms w n r m of
        Inl e \<Rightarrow> Inl e
      | Inr fs \<Rightarrow>
          (let wages = wage_offers m w fs
           in if wages = [] then Inl ValueError
              else (let max_idx = index wages (py_max wages)
                    in Inr (fs ! max_idx, wages ! max_idx))))"

definition firm_selection :: "nat \<Rightarrow> nat \<Rightarrow> (nat \<Rightarrow> nat) \<Rightarrow> market \<Rightarrow> py_error + market" where
  "firm_selection w n r m =
     (let m1 = upd_worker w (\<lambda>me. me\<lparr>search := True\<rparr>) m
      in case rank_firms w n r m1 of
           Inl e \<Rightarrow> Inl e
         | Inr (f, wg) \<Rightarrow>
             if wage (workers m1 ! w) < wg then
               Inr (switch_employer w f
                      (upd_worker w (\<lambda>me. me\<lparr>switched := Some True, wage := wg\<rparr>) m1))
             else Inr m1)"

section \<open>Market\<close>

text \<open>The random inputs of \<open>setup\<close>: for worker \<open>i\<close> the draws of its class and
  productivity, for firm \<open>j\<close> the draw of its discount factor.\<close>

record setup_rand =
  rnd_class :: "nat \<Rightarrow> nat"
  rnd_prod :: "nat \<Rightarrow> nat"
  rnd_d :: "nat \<Rightarrow> real"

text \<open>The random inputs of one \<open>step\<close>: the stream for the selection of the active
  workers, and for worker \<open>w\<close> the streams of its tie-break and of its firm sample.\<close>

record step_rand =
  rnd_active :: "nat \<Rightarrow> nat"
  rnd_coin :: "nat \<Rightarrow> nat \<Rightarrow> nat"
  rnd_firms :: "nat \<Rightarrow> nat \<Rightarrow> nat"

definition firm_setup :: "params \<Rightarrow> real \<Rightarrow> firm" where
  "firm_setup p u =
     \<lparr>d_factor = round2 (uniform u (fst (d_range p)) (snd (d_range p))),
      d_class_f = p_d_class p,
      employees = [], size_f = 0, size_0 = 0, size_1 = 0,
      price = 1, costs = 0, revenue = 0, profit = 0,
      output_f = 0, output_0 = 0, output_1 = 0\<rparr>"

definition initial_hire :: "nat \<Rightarrow> market \<Rightarrow> market" where
  "initial_hire i m =
     (let m1 = update_employer i (Some i) m;
          m2 = upd_firm i (hire (workers m1) i) m1
      in upd_worker i (\<lambda>me. me\<lparr>wage := calc_wage (firms m2 ! i) me\<rparr>) m2)"

definition market_setup :: "params \<Rightarrow> setup_rand \<Rightarrow> py_error + market" where
  "market_setup p r =
     (case for_each (\<lambda>i ws. case worker_setup p (rnd_class r i) (rnd_prod r i) of
                               Inl e \<Rightarrow> Inl e
                             | Inr me \<Rightarrow> Inr (ws @ [me]))
             [0..<n_workers p] [] of
        Inl e \<Rightarrow> Inl e
      | Inr ws \<Rightarrow>
          Inr (fold initial_hire [0..<n_workers p]
                 \<lparr>workers = ws,
                  firms = map (\<lambda>j. firm_setup p (rnd_d r j)) [0..<2 * n_workers p + 1],
                  recorded = []\<rparr>))"

definition reset_counters :: "market \<Rightarrow> market" where
  "reset_counters m =
     m\<lparr>workers := map (\<lambda>me. me\<lparr>search := False, switch := False\<rparr>) (workers m)\<rparr>"

definition education_phase ::
    "params \<Rightarrow> step_rand \<Rightarrow> nat list \<Rightarrow> market \<Rightarrow> py_error + market" where
  "education_phase p r sel m =
     for_each (\<lambda>w m'. if \<not> educ (workers m' ! w)
                       then education_decision w (premium p) (weighted p) (rnd_coin r w) m'
                       else Inr m') sel m"

definition selection_phase ::
    "params \<Rightarrow> step_rand \<Rightarrow> nat list \<Rightarrow> market \<Rightarrow> py_error + market" where
  "selection_phase p r sel m =
     for_each (\<lambda>w m'. firm_selection w (sample p) (rnd_firms r w) m') sel m"

text \<open>\<open>self.workers.employer_size = self.workers.employer.size\<close>: reading \<open>size\<close> from
  an employer that is \<open>None\<close> raises AttributeError.\<close>

definition refresh_employer_size :: "market \<Rightarrow> py_error + market" where
  "refresh_employer_size m =
     for_each (\<lambda>w m'. case employer (workers m' ! w) of
                         None \<Rightarrow> Inl AttributeError
                       | Some f \<Rightarrow>
                           Inr (upd_worker w
                                  (\<lambda>me. me\<lparr>employer_size := Some (size_f (firms m' ! f))\<rparr>) m'))
       [0..<length (workers m)] m"

definition production_phase :: "market \<Rightarrow> market" where
  "production_phase m =
     (let m1 = m\<lparr>firms := map (produce (workers m)) (firms m)\<rparr>
      in m1\<lparr>firms := map (calc_profit (workers m1)) (firms m1)\<rparr>)"

definition market_step :: "params \<Rightarrow> step_rand \<Rightarrow> market \<Rightarrow> py_error + market" where
  "market_step p r m =
     (let m1 = reset_counters m
      in case agents_random (rnd_active r) [0..<length (workers m1)]
                \<lceil>real (n_workers p) * active p\<rceil> of
           Inl e \<Rightarrow> Inl e
         | Inr workers_sel \<Rightarrow>
             (case education_phase p r workers_sel m1 of
                Inl e \<Rightarrow> Inl e
              | Inr m2 \<Rightarrow>
                  (case selection_phase p r workers_sel m2 of
                     Inl e \<Rightarrow> Inl e
                   | Inr m3 \<Rightarrow>
                       (case refresh_employer_size m3 of
                          Inl e \<Rightarrow> Inl e
                        | Inr m4 \<Rightarrow> Inr (production_phase m4)))))"

definition worker_record :: "worker \<Rightarrow> worker_row" where
  "worker_record me =
     WorkerRow (d_class me) (prod_w me) (hrs me) (employer me) (employer_id me)
       (employer_size me) (wage me) (educ me) (search me) (switch me)"

definition firm_record :: "firm \<Rightarrow> firm_row" where
  "firm_record f =
     FirmRow (d_factor f) (size_f f) (size_0 f) (size_1 f) (output_f f) (output_0 f)
       (output_1 f) (costs f) (revenue f) (profit f)"

definition market_update :: "market \<Rightarrow> market" where
  "market_update m =
     m\<lparr>recorded := recorded m @ [(map worker_record (workers m), map firm_record (firms m))]\<rparr>"

text \<open>agentpy's \<open>Model.run\<close>: \<open>setup\<close> and \<open>update\<close>, then \<open>step\<close> and \<open>update\<close> for
  each of the configured steps.\<close>

definition run :: "params \<Rightarrow> setup_rand \<Rightarrow> (nat \<Rightarrow> step_rand) \<Rightarrow> py_error + market" where
  "run p r rs =
     (case market_setup p r of
        Inl e \<Rightarrow> Inl e
      | Inr m \<Rightarrow>
          for_each (\<lambda>t m'. case market_step p (rs t) m' of
                              Inl e \<Rightarrow> Inl e
                            | Inr m'' \<Rightarrow> Inr (market_update m''))
            [1..<Suc (steps p)] (market_update m))"

section \<open>Invariants of the market\<close>

text \<open>A firm's size attributes agree with its roster, as \<open>set_size\<close> leaves them.\<close>

definition sizes_ok :: "worker list \<Rightarrow> firm \<Rightarrow> bool" where
  "sizes_ok ws f \<longleftrightarrow>
     size_f f = length (employees f) \<and>
     size_1 f = length (filter (\<lambda>e. d_class (ws ! e) = 1) (employees f)) \<and>
     size_0 f = length (filter (\<lambda>e. d_class (ws ! e) = 0) (employees f))"

text \<open>
  The bidirectional consistency of employer references and rosters: every worker has an
  employer and is on that firm's roster; everybody on a roster is a worker whose employer
  is that firm; no roster has duplicates; the size attributes are up to date; the
  characteristic class is 0 or 1.
\<close>

definition consistent :: "market \<Rightarrow> bool" where
  "consistent m \<longleftrightarrow>
     (\<forall>w<length (workers m). \<exists>f<length (firms m).
         employer (workers m ! w) = Some f \<and> employer_id (workers m ! w) = Some f \<and>
         w \<in> set (employees (firms m ! f))) \<and>
     (\<forall>f<length (firms m). \<forall>w\<in>set (employees (firms m ! f)).
         w < length (workers m) \<and> employer (workers m ! w) = Some f) \<and>
     (\<forall>f<length (firms m). distinct (employees (firms m ! f)) \<and> sizes_ok (workers m) (firms m ! f)) \<and>
     (\<forall>w<length (workers m). d_class (workers m ! w) = 0 \<or> d_class (workers m ! w) = 1)"

definition market_inv :: "params \<Rightarrow> market \<Rightarrow> bool" where
  "market_inv p m \<longleftrightarrow>
     length (workers m) = n_workers p \<and> length (firms m) = 2 * n_workers p + 1 \<and> consistent m"

text \<open>Two worker lists with the same employment links and classes; two firm lists with
  the same rosters and sizes.\<close>

definition same_links :: "worker list \<Rightarrow> worker list \<Rightarrow> bool" where
  "same_links ws ws' \<longleftrightarrow>
     length ws' = length ws \<and>
     (\<forall>w<length ws. employer (ws' ! w) = employer (ws ! w) \<and>
                     employer_id (ws' ! w) = employer_id (ws ! w) \<and>
                     d_class (ws' ! w) = d_class (ws ! w))"

definition same_rosters :: "firm list \<Rightarrow> firm list \<Rightarrow> bool" where
  "same_rosters fs fs' \<longleftrightarrow>
     length fs' = length fs \<and>
     (\<forall>f<length fs. employees (fs' ! f) = employees (fs ! f) \<and> size_f (fs' ! f) = size_f (fs ! f) \<and>
                     size_0 (fs' ! f) = size_0 (fs ! f) \<and> size_1 (fs' ! f) = size_1 (fs ! f))"

text \<open>The loop of \<open>Market.setup\<close> after \<open>k\<close> rounds: worker \<open>i\<close> is the one employee
  of firm \<open>i\<close> for \<open>i < k\<close>, the other workers have no employer and the other firms no
  employee.\<close>

definition hired_upto :: "nat \<Rightarrow> market \<Rightarrow> bool" where
  "hired_upto k m \<longleftrightarrow>
     (\<forall>w<length (workers m).
         (d_class (workers m ! w) = 0 \<or> d_class (workers m ! w) = 1) \<and>
         employer (workers m ! w) = (if w < k then Some w else None) \<and>
         employer_id (workers m ! w) = (if w < k then Some w else None)) \<and>
     (\<forall>f<length (firms m).
         employees (firms m ! f) = (if f < k then [f] else []) \<and>
         sizes_ok (workers m) (firms m ! f))"

text \<open>The states of a run at the end of \<open>setup\<close>, of a \<open>step\<close> and of an \<open>update\<close>,
  for any random inputs.\<close>

inductive reachable :: "params \<Rightarrow> market \<Rightarrow> bool" for p :: params where
  after_setup: "market_setup p r = Inr m \<Longrightarrow> reachable p m"
| after_step: "reachable p m \<Longrightarrow> market_step p r m = Inr m' \<Longrightarrow> reachable p m'"
| after_update: "reachable p m \<Longrightarrow> reachable p (market_update m)"

text \<open>
  A later state \<open>b\<close> of a worker \<open>a\<close>: an educated worker stays educated with the same
  productivity; and if the premium and the productivity are not negative, the
  productivity has not decreased.
\<close>

definition worker_later :: "real \<Rightarrow> worker \<Rightarrow> worker \<Rightarrow> bool" where
  "worker_later prem a b \<longleftrightarrow>
     (educ a \<longrightarrow> educ b \<and> prod_w b = prod_w a) \<and>
     (0 \<le> prem \<and> 0 \<le> prod_w a \<longrightarrow> prod_w a \<le> prod_w b)"

definition later :: "real \<Rightarrow> market \<Rightarrow> market \<Rightarrow> bool" where
  "later prem m m' \<longleftrightarrow>
     length (workers m') = length (workers m) \<and>
     (\<forall>w<length (workers m). worker_later prem (workers m ! w) (workers m' ! w))"

text \<open>The rest of a run from a state \<open>m\<close>: any number of steps and updates, for any
  random inputs.\<close>

inductive evolves :: "params \<Rightarrow> market \<Rightarrow> market \<Rightarrow> bool" for p :: params where
  evolves_refl: "evolves p m m"
| evolves_step: "evolves p m m' \<Longrightarrow> market_step p r m' = Inr m'' \<Longrightarrow> evolves p m m''"
| evolves_update: "evolves p m m' \<Longrightarrow> evolves p m (market_update m')"

text \<open>
  The states of the example run of two workers with productivity 10 and firms that do
  not discount: the market invariant, no discount and price 1 at every firm, and
  productivity 10, wage 10, 8 hours and reference productivity 10 for every worker.
  \<open>flat_start\<close> is the same during \<open>setup\<close>, where a worker without an employer has no
  wage yet.
\<close>

definition flat :: "params \<Rightarrow> market \<Rightarrow> bool" where
  "flat p m \<longleftrightarrow>
     market_inv p m \<and>
     (\<forall>f<length (firms m). d_factor (firms m ! f) = 0 \<and> price (firms m ! f) = 1) \<and>
     (\<forall>w<length (workers m).
         prod_w (workers m ! w) = 10 \<and> wage (workers m ! w) = 10 \<and>
         hrs (workers m ! w) = 8 \<and> avg_prod (workers m ! w) = 10)"

definition flat_start :: "market \<Rightarrow> bool" where
  "flat_start m \<longleftrightarrow>
     (\<forall>f<length (firms m). d_factor (firms m ! f) = 0 \<and> price (firms m ! f) = 1) \<and>
     (\<forall>w<length (workers m).
         prod_w (workers m ! w) = 10 \<and> hrs (workers m ! w) = 8 \<and>
         avg_prod (workers m ! w) = 10 \<and> \<not> educ (workers m ! w) \<and>
         (employer (workers m ! w) = None \<or> wage (workers m ! w) = 10))"

section \<open>Example configurations\<close>

text \<open>One worker of class 1 with productivity 20 and three firms; firm 0, its first
  employer, discounts by one half, the other firms do not discount.\<close>

definition switch_params :: params where
  "switch_params = \<lparr>steps = 1, n_workers = 1, prod_range = (20, 20), d_range = (0, 1),
     premium = 0, weighted = True, p_d_class = 1, active = 1, sample = 1\<rparr>"

definition switch_setup_rand :: setup_rand where
  "switch_setup_rand = \<lparr>rnd_class = (\<lambda>i. 0), rnd_prod = (\<lambda>i. 0),
     rnd_d = (\<lambda>j. if j = 0 then 1 / 2 else 0)\<rparr>"

definition switch_step_rand :: step_rand where
  "switch_step_rand = \<lparr>rnd_active = (\<lambda>k. 0), rnd_coin = (\<lambda>w k. 1), rnd_firms = (\<lambda>w k. 0)\<rparr>"

definition switch_market :: market where
  "switch_market = projr (market_setup switch_params switch_setup_rand)"

text \<open>The state after the first step, in which the worker moves to firm 1.\<close>

definition switch_market_after :: market where
  "switch_market_after = projr (market_step switch_params switch_step_rand switch_market)"

text \<open>The same with the productivity range starting at 0, and the draw taking 0.\<close>

definition zero_prod_params :: params where
  "zero_prod_params = switch_params\<lparr>prod_range := (0, 20), premium := 1 / 5\<rparr>"

text \<open>Class 0 configured as the discriminated class: worker 0 is of class 0, worker 1 of
  class 1, both have productivity 13 against a reference productivity of 12, and every
  firm discounts by one half.\<close>

definition class0_params :: params where
  "class0_params = \<lparr>steps = 1, n_workers = 2, prod_range = (10, 14), d_range = (0, 1),
     premium = 1 / 5, weighted = True, p_d_class = 0, active = 1, sample = 1\<rparr>"

definition class0_setup_rand :: setup_rand where
  "class0_setup_rand = \<lparr>rnd_class = (\<lambda>i. if i = 0 then 1 else 0), rnd_prod = (\<lambda>i. 3),
     rnd_d = (\<lambda>j. 1 / 2)\<rparr>"

definition class0_market :: market where
  "class0_market = projr (market_setup class0_params class0_setup_rand)"

text \<open>Two steps of that market; both workers are active in each.\<close>

definition class0_market_1 :: market where
  "class0_market_1 = projr (market_step class0_params switch_step_rand class0_market)"

definition class0_market_2 :: market where
  "class0_market_2 = projr (market_step class0_params switch_step_rand class0_market_1)"

text \<open>A market without workers: its single firm is not active.\<close>

definition idle_market :: market where
  "idle_market = projr (market_setup (switch_params\<lparr>n_workers := 0\<rparr>) switch_setup_rand)"

text \<open>The example run: two workers with productivity 10, five firms without discount, a
  premium of 0, both workers active, one firm sampled, one step.  In the random inputs
  \<open>flat_step_rand\<close> every tie-break draws \<open>True\<close>.\<close>

definition flat_params :: params where
  "flat_params = \<lparr>steps = 1, n_workers = 2, prod_range = (10, 10), d_range = (0, 0),
     premium = 0, weighted = True, p_d_class = 1, active = 1, sample = 1\<rparr>"

definition flat_step_rand :: step_rand where
  "flat_step_rand = \<lparr>rnd_active = (\<lambda>k. 0), rnd_coin = (\<lambda>w k. 0), rnd_firms = (\<lambda>w k. 0)\<rparr>"

section \<open>Auxiliary lemmas\<close>

lemma same_links_refl: "same_links ws ws"
  by (simp add: same_links_def)

lemma same_links_trans: "same_links a b \<Longrightarrow> same_links b c \<Longrightarrow> same_links a c"
  by (simp add: same_links_def)

lemma same_rosters_refl: "same_rosters fs fs"
  by (simp add: same_rosters_def)

lemma sizes_ok_cong:
  assumes "sizes_ok ws f" and "\<forall>e\<in>set (employees f). d_class (ws' ! e) = d_class (ws ! e)"
    and "employees f' = employees f" "size_f f' = size_f f" "size_0 f' = size_0 f" "size_1 f' = size_1 f"
  shows "sizes_ok ws' f'"
proof -
  have "filter (\<lambda>e. d_class (ws' ! e) = c) (employees f) = filter (\<lambda>e. d_class (ws ! e) = c) (employees f)" for c
    using assms(2) by (intro filter_cong) auto
  with assms show ?thesis by (simp add: sizes_ok_def)
qed

lemma consistent_frame:
  assumes c: "consistent m" and l: "same_links (workers m) (workers m')"
    and r: "same_rosters (firms m) (firms m')"
  shows "consistent m'"
proof -
  have lw: "length (workers m') = length (workers m)" and lf: "length (firms m') = length (firms m)"
    using l r by (simp_all add: same_links_def same_rosters_def)
  have a: "\<forall>w<length (workers m'). \<exists>f<length (firms m').
         employer (workers m' ! w) = Some f \<and> employer_id (workers m' ! w) = Some f \<and>
         w \<in> set (employees (firms m' ! f))"
    using c l r unfolding consistent_def same_links_def same_rosters_def by metis
  have b: "\<forall>f<length (firms m'). \<forall>w\<in>set (employees (firms m' ! f)).
         w < length (workers m') \<and> employer (workers m' ! w) = Some f"
    using c l r unfolding consistent_def same_links_def same_rosters_def by metis
  have d: "\<forall>f<length (firms m'). distinct (employees (firms m' ! f)) \<and> sizes_ok (workers m') (firms m' ! f)"
  proof (intro allI impI)
    fix f assume f: "f < length (firms m')"
    then have f': "f < length (firms m)" using lf by simp
    have 1: "distinct (employees (firms m ! f))" "sizes_ok (workers m) (firms m ! f)"
      using c f' by (auto simp: consistent_def)
    have 2: "\<forall>e\<in>set (employees (firms m ! f)). d_class (workers m' ! e) = d_class (workers m ! e)"
      using c l f' by (auto simp: consistent_def same_links_def)
    have 3: "employees (firms m' ! f) = employees (firms m ! f)" "size_f (firms m' ! f) = size_f (firms m ! f)"
       "size_0 (firms m' ! f) = size_0 (firms m ! f)" "size_1 (firms m' ! f) = size_1 (firms m ! f)"
      using r f' by (auto simp: same_rosters_def)
    show "distinct (employees (firms m' ! f)) \<and> sizes_ok (workers m') (firms m' ! f)"
      using 1 sizes_ok_cong[OF 1(2) 2 3] 3 by simp
  qed
  have e: "\<forall>w<length (workers m'). d_class (workers m' ! w) = 0 \<or> d_class (workers m' ! w) = 1"
    using c l unfolding consistent_def same_links_def by metis
  show ?thesis unfolding consistent_def using a b d e by blast
qed

lemma workers_upd_worker [simp]: "workers (upd_worker w g m) = (workers m)[w := g (workers m ! w)]"
  and firms_upd_worker [simp]: "firms (upd_worker w g m) = firms m"
  and recorded_upd_worker [simp]: "recorded (upd_worker w g m) = recorded m"
  by (simp_all add: upd_worker_def)

lemma firms_upd_firm [simp]: "firms (upd_firm f g m) = (firms m)[f := g (firms m ! f)]"
  and workers_upd_firm [simp]: "workers (upd_firm f g m) = workers m"
  and recorded_upd_firm [simp]: "recorded (upd_firm f g m) = recorded m"
  by (simp_all add: upd_firm_def)

lemma nth_upd: "xs[i := x] ! j = (if i = j \<and> i < length xs then x else xs ! j)"
  by (cases "i < length xs") (simp_all add: nth_list_update list_update_beyond)

lemma same_links_update:
  assumes "employer x = employer (ws ! w)" "employer_id x = employer_id (ws ! w)"
    "d_class x = d_class (ws ! w)"
  shows "same_links ws (ws[w := x])"
  using assms by (auto simp add: same_links_def nth_upd)

lemma get_education_frame:
  "same_links (workers m) (workers (get_education w prem m)) \<and>
   firms (get_education w prem m) = firms m \<and> recorded (get_education w prem m) = recorded m"
  by (cases "w < length (workers m)")
     (simp_all add: get_education_def Let_def same_links_def nth_list_update split: option.splits)

lemma education_decision_frame:
  assumes "education_decision w prem wtd coin m = Inr m'"
  shows "same_links (workers m) (workers m') \<and> firms m' = firms m \<and> recorded m' = recorded m"
  using assms get_education_frame[of m w prem]
  by (auto simp: education_decision_def Let_def same_links_refl split: if_splits pyfloat.splits)

lemma employees_set_size [simp]: "employees (set_size ws f) = employees f"
  by (simp add: set_size_def)

lemma sizes_ok_set_size: "sizes_ok ws (set_size ws f)"
  by (simp add: sizes_ok_def set_size_def)

lemma employees_hire: "employees (hire ws w f) = (if w \<in> set (employees f) then employees f else employees f @ [w])"
  by (simp add: hire_def)

lemma employees_separate: "employees (separate ws w f) = (if w \<in> set (employees f) then remove1 w (employees f) else employees f)"
  by (simp add: separate_def)

lemma sizes_ok_hire: "sizes_ok ws (hire ws w f)"
  by (simp add: hire_def sizes_ok_set_size)

lemma sizes_ok_separate: "sizes_ok ws (separate ws w f)"
  by (simp add: separate_def sizes_ok_set_size)

lemma switch_employer_firms:
  assumes "employer (workers m ! w) = Some old"
  shows "firms (switch_employer w f m) =
     ((firms m)[old := separate (workers m) w (firms m ! old)])
       [f := hire (workers m) w (((firms m)[old := separate (workers m) w (firms m ! old)]) ! f)]"
  using assms by (simp add: switch_employer_def update_employer_def Let_def)

lemma switch_employer_workers:
  "\<exists>sz. workers (switch_employer w f m) =
     (workers m)[w := (workers m ! w)\<lparr>employer := Some f, employer_id := Some f, employer_size := sz\<rparr>]"
  by (auto simp add: switch_employer_def update_employer_def Let_def split: option.splits)

lemma switch_employer_recorded [simp]: "recorded (switch_employer w f m) = recorded m"
  by (simp add: switch_employer_def update_employer_def Let_def split: option.splits)

lemma switch_employer_consistent:
  assumes c: "consistent m" and w: "w < length (workers m)" and f: "f < length (firms m)"
    and old: "employer (workers m ! w) = Some old" and ne: "f \<noteq> old"
  shows "consistent (switch_employer w f m)"
proof -
  let ?W = "workers m" and ?F = "firms m"
  let ?m' = "switch_employer w f m"
  obtain sz where W': "workers ?m' = ?W[w := (?W ! w)\<lparr>employer := Some f, employer_id := Some f, employer_size := sz\<rparr>]"
    using switch_employer_workers by blast
  have oldlt: "old < length ?F" using c w old by (auto simp: consistent_def)
  have win: "w \<in> set (employees (?F ! old))" using c w old by (auto simp: consistent_def)
  have wnotin: "w \<notin> set (employees (?F ! f))" using c f old ne by (auto simp: consistent_def)
  have F': "firms ?m' = (?F[old := separate ?W w (?F ! old)])[f := hire ?W w (?F ! f)]"
    using switch_employer_firms[OF old, of f] ne by simp
  have lenW: "length (workers ?m') = length ?W" using W' by simp
  have lenF: "length (firms ?m') = length ?F" using F' by simp
  have dist: "\<And>g. g < length ?F \<Longrightarrow> distinct (employees (?F ! g))" using c by (simp add: consistent_def)
  have emp: "\<And>g. g < length ?F \<Longrightarrow> employees (firms ?m' ! g) =
      (if g = f then employees (?F ! f) @ [w] else if g = old then remove1 w (employees (?F ! old))
       else employees (?F ! g))"
    using F' win wnotin ne oldlt f by (simp add: nth_list_update employees_hire employees_separate)
  have dcl: "\<And>v. d_class (workers ?m' ! v) = d_class (?W ! v)"
    using W' by (simp add: nth_upd)
  have empl: "\<And>v. v < length ?W \<Longrightarrow> employer (workers ?m' ! v) = (if v = w then Some f else employer (?W ! v))"
    "\<And>v. v < length ?W \<Longrightarrow> employer_id (workers ?m' ! v) = (if v = w then Some f else employer_id (?W ! v))"
    using W' by (simp_all add: nth_list_update)
  have a: "\<forall>v<length (workers ?m'). \<exists>g<length (firms ?m').
         employer (workers ?m' ! v) = Some g \<and> employer_id (workers ?m' ! v) = Some g \<and>
         v \<in> set (employees (firms ?m' ! g))"
  proof (intro allI impI)
    fix v assume "v < length (workers ?m')"
    then have v: "v < length ?W" using lenW by simp
    show "\<exists>g<length (firms ?m'). employer (workers ?m' ! v) = Some g \<and>
             employer_id (workers ?m' ! v) = Some g \<and> v \<in> set (employees (firms ?m' ! g))"
    proof (cases "v = w")
      case True
      then show ?thesis using f lenF empl[OF v] emp[OF f] by auto
    next
      case False
      obtain g where g: "g < length ?F" "employer (?W ! v) = Some g" "employer_id (?W ! v) = Some g"
          "v \<in> set (employees (?F ! g))"
        using c v unfolding consistent_def by blast
      have "v \<in> set (employees (firms ?m' ! g))"
        using emp[OF g(1)] g(4) False by auto
      then show ?thesis using g False lenF empl[OF v] by auto
    qed
  qed
  have b: "\<forall>g<length (firms ?m'). \<forall>v\<in>set (employees (firms ?m' ! g)).
         v < length (workers ?m') \<and> employer (workers ?m' ! v) = Some g"
  proof (intro allI impI ballI)
    fix g v assume g': "g < length (firms ?m')" and vin: "v \<in> set (employees (firms ?m' ! g))"
    then have g: "g < length ?F" using lenF by simp
    have rback: "\<And>g v. g < length ?F \<Longrightarrow> v \<in> set (employees (?F ! g)) \<Longrightarrow>
        v < length ?W \<and> employer (?W ! v) = Some g"
      using c unfolding consistent_def by blast
    show "v < length (workers ?m') \<and> employer (workers ?m' ! v) = Some g"
    proof (cases "g = f")
      case True
      then have "v = w \<or> v \<in> set (employees (?F ! f))" using emp[OF g] vin by auto
      then show ?thesis
      proof
        assume "v = w" then show ?thesis using True w lenW empl(1)[OF w] by simp
      next
        assume vf: "v \<in> set (employees (?F ! f))"
        then have "v \<noteq> w" using wnotin by auto
        then show ?thesis using rback[OF f vf] True lenW empl(1) by simp
      qed
    next
      case False
      show ?thesis
      proof (cases "g = old")
        case True
        then have vo: "v \<in> set (employees (?F ! old))" and "v \<noteq> w"
          using emp[OF g] vin False dist[OF oldlt] by auto
        then show ?thesis using rback[OF oldlt vo] True lenW empl(1) by simp
      next
        case g_old: False
        then have vg: "v \<in> set (employees (?F ! g))" using emp[OF g] vin False by simp
        then have "v \<noteq> w" using rback[OF g vg] old g_old by auto
        then show ?thesis using rback[OF g vg] lenW empl(1) by simp
      qed
    qed
  qed
  have d: "\<forall>g<length (firms ?m'). distinct (employees (firms ?m' ! g)) \<and> sizes_ok (workers ?m') (firms ?m' ! g)"
  proof (intro allI impI)
    fix g assume "g < length (firms ?m')"
    then have g: "g < length ?F" using lenF by simp
    have d1: "distinct (employees (firms ?m' ! g))"
      using emp[OF g] dist[OF g] dist[OF f] dist[OF oldlt] wnotin by auto
    have so: "sizes_ok ?W (firms ?m' ! g)"
      using F' g oldlt f c by (auto simp: nth_list_update sizes_ok_hire sizes_ok_separate consistent_def)
    have "sizes_ok (workers ?m') (firms ?m' ! g)"
      by (rule sizes_ok_cong[OF so]) (simp_all add: dcl)
    with d1 show "distinct (employees (firms ?m' ! g)) \<and> sizes_ok (workers ?m') (firms ?m' ! g)" by simp
  qed
  have e: "\<forall>v<length (workers ?m'). d_class (workers ?m' ! v) = 0 \<or> d_class (workers ?m' ! v) = 1"
    using c lenW dcl by (simp add: consistent_def)
  show ?thesis unfolding consistent_def using a b d e by blast
qed

subsection \<open>Random draws\<close>

lemma draw_props:
  "n \<le> length xs \<Longrightarrow>
     length (draw r xs n) = n \<and> set (draw r xs n) \<subseteq> set xs \<and>
     (distinct xs \<longrightarrow> distinct (draw r xs n))"
proof (induction n arbitrary: r xs)
  case 0
  then show ?case by simp
next
  case (Suc n)
  let ?i = "r 0 mod length xs"
  let ?rest = "take ?i xs @ drop (Suc ?i) xs"
  from Suc.prems have ne: "0 < length xs" by (cases xs) simp_all
  then have i: "?i < length xs" by simp
  have split: "xs = take ?i xs @ xs ! ?i # drop (Suc ?i) xs"
    using i by (rule id_take_nth_drop)
  have len: "n \<le> length ?rest" using Suc.prems i by simp
  have sub: "set ?rest \<subseteq> set xs"
    using set_take_subset[of ?i xs] set_drop_subset[of "Suc ?i" xs] by auto
  have dis: "distinct xs \<Longrightarrow> distinct ?rest \<and> xs ! ?i \<notin> set ?rest"
  proof -
    assume "distinct xs"
    then have "distinct (take ?i xs @ xs ! ?i # drop (Suc ?i) xs)" using split by simp
    then show ?thesis by auto
  qed
  from Suc.IH[OF len, of "\<lambda>k. r (Suc k)"]
  have ih: "length (draw (\<lambda>k. r (Suc k)) ?rest n) = n"
    "set (draw (\<lambda>k. r (Suc k)) ?rest n) \<subseteq> set ?rest"
    "distinct ?rest \<longrightarrow> distinct (draw (\<lambda>k. r (Suc k)) ?rest n)" by auto
  have "xs ! ?i \<in> set xs" using i by simp
  then show ?case using ih sub dis by (auto simp: Let_def)
qed

lemma agents_random_props:
  assumes "agents_random r xs n = Inr sel"
  shows "set sel \<subseteq> set xs \<and> int (length sel) = n \<and> (distinct xs \<longrightarrow> distinct sel)"
proof (cases "n = 1")
  case True
  then show ?thesis using assms
    by (auto simp: agents_random_def choice_def split: if_splits)
next
  case False
  then have "0 \<le> n" "nat n \<le> length xs" "sel = draw r xs (nat n)"
    using assms by (auto simp: agents_random_def random_sample_def split: if_splits)
  then show ?thesis using draw_props[of "nat n" xs r] by auto
qed

subsection \<open>Ranking\<close>

lemma py_max_in: "ws \<noteq> [] \<Longrightarrow> py_max ws \<in> set ws"
  by (induction ws rule: py_max.induct) (auto simp: Let_def)

lemma py_max_ge: "x \<in> set ws \<Longrightarrow> x \<le> py_max ws"
  by (induction ws rule: py_max.induct) (auto simp: Let_def)

lemma index_props: "v \<in> set ws \<Longrightarrow> index ws v < length ws \<and> ws ! index ws v = v \<and> (\<forall>j<index ws v. ws ! j \<noteq> v)"
proof (induction ws)
  case Nil
  then show ?case by simp
next
  case (Cons x ws)
  show ?case
  proof (cases "x = v")
    case True
    then show ?thesis by simp
  next
    case False
    with Cons show ?thesis by (auto simp: nth_Cons split: nat.splits)
  qed
qed

lemma select_firms_props:
  assumes "select_firms w n r m = Inr fs"
  shows "distinct fs \<and> length fs = n \<and>
         (\<forall>f\<in>set fs. f < length (firms m) \<and> Some f \<noteq> employer_id (workers m ! w))"
  using agents_random_props[OF assms[unfolded select_firms_def]] by auto

lemma wage_offers_length [simp]: "length (wage_offers m w fs) = length fs"
  by (simp add: wage_offers_def)

lemma rank_firms_props:
  assumes "rank_firms w n r m = Inr (f, wg)"
  shows "\<exists>fs. select_firms w n r m = Inr fs \<and> fs \<noteq> [] \<and>
     wg = py_max (wage_offers m w fs) \<and> f = fs ! index (wage_offers m w fs) wg \<and>
     index (wage_offers m w fs) wg < length fs \<and>
     wage_offers m w fs ! index (wage_offers m w fs) wg = wg \<and>
     (\<forall>j<length fs. wage_offers m w fs ! j \<le> wg) \<and>
     (\<forall>j<index (wage_offers m w fs) wg. wage_offers m w fs ! j < wg)"
proof -
  from assms obtain fs where fs: "select_firms w n r m = Inr fs" "wage_offers m w fs \<noteq> []"
    by (auto simp: rank_firms_def Let_def split: sum.splits if_splits)
  let ?offers = "wage_offers m w fs"
  let ?k = "index ?offers (py_max ?offers)"
  have res: "f = fs ! ?k" "wg = ?offers ! ?k"
    using assms fs by (auto simp: rank_firms_def Let_def)
  from index_props[OF py_max_in[OF fs(2)]]
  have k: "?k < length ?offers" "?offers ! ?k = py_max ?offers" "\<forall>j<?k. ?offers ! j \<noteq> py_max ?offers"
    by auto
  have ge: "\<forall>j<length fs. ?offers ! j \<le> py_max ?offers"
    using py_max_ge[of _ ?offers] by (metis wage_offers_length nth_mem)
  have lt: "\<forall>j<?k. ?offers ! j < py_max ?offers"
  proof (intro allI impI)
    fix j assume j: "j < ?k"
    then have "j < length fs" using k(1) by simp
    then have "?offers ! j \<le> py_max ?offers" using ge by blast
    moreover have "?offers ! j \<noteq> py_max ?offers" using k(3) j by blast
    ultimately show "?offers ! j < py_max ?offers" by simp
  qed
  have wg: "wg = py_max ?offers" using res k by simp
  have ne: "fs \<noteq> []" using fs(2) by (auto simp: wage_offers_def)
  show ?thesis
    apply (rule exI[of _ fs])
    unfolding wg using fs(1) ne k ge lt res(1) by simp
qed

subsection \<open>firm_selection\<close>


lemma rank_firms_search:
  "rank_firms w n r (upd_worker w (\<lambda>me. me\<lparr>search := True\<rparr>) m) = rank_firms w n r m"
proof -
  have "wage_offers (upd_worker w (\<lambda>me. me\<lparr>search := True\<rparr>) m) w fs = wage_offers m w fs" for fs
    by (simp add: wage_offers_def calc_wage_def nth_upd)
  then show ?thesis
    by (simp add: rank_firms_def select_firms_def nth_upd cong: sum.case_cong)
qed

lemma firm_selection_cases:
  assumes "firm_selection w n r m = Inr m'"
  obtains f wg where "rank_firms w n r m = Inr (f, wg)" "wage (workers m ! w) < wg"
      "m' = switch_employer w f
              (upd_worker w (\<lambda>me. me\<lparr>switched := Some True, wage := wg\<rparr>)
                 (upd_worker w (\<lambda>me. me\<lparr>search := True\<rparr>) m))"
  | f wg where "rank_firms w n r m = Inr (f, wg)" "\<not> wage (workers m ! w) < wg"
      "m' = upd_worker w (\<lambda>me. me\<lparr>search := True\<rparr>) m"
  using assms unfolding firm_selection_def Let_def rank_firms_search
  by (auto simp: nth_upd split: sum.splits prod.splits if_splits)

lemma upd_worker_frame:
  assumes "\<And>x. employer (g x) = employer x \<and> employer_id (g x) = employer_id x \<and> d_class (g x) = d_class x"
  shows "same_links (workers m) (workers (upd_worker w g m))"
  using assms by (simp add: same_links_update)

lemma upd_worker_consistent:
  assumes "consistent m"
    and "\<And>x. employer (g x) = employer x \<and> employer_id (g x) = employer_id x \<and> d_class (g x) = d_class x"
  shows "consistent (upd_worker w g m)"
  by (rule consistent_frame[OF assms(1) upd_worker_frame]) (simp_all add: assms(2) same_rosters_refl)

lemma firm_selection_consistent:
  assumes c: "consistent m" and w: "w < length (workers m)" and fs: "firm_selection w n r m = Inr m'"
  shows "consistent m' \<and> length (workers m') = length (workers m) \<and> length (firms m') = length (firms m)"
  using fs
proof (cases rule: firm_selection_cases)
  case (1 f wg)
  let ?m2 = "upd_worker w (\<lambda>me. me\<lparr>switched := Some True, wage := wg\<rparr>)
                 (upd_worker w (\<lambda>me. me\<lparr>search := True\<rparr>) m)"
  have c2: "consistent ?m2"
    by (intro upd_worker_consistent c) simp_all
  obtain old where old: "employer (workers m ! w) = Some old" "employer_id (workers m ! w) = Some old"
    using c w unfolding consistent_def by blast
  from rank_firms_props[OF 1(1)] obtain sel where sel: "select_firms w n r m = Inr sel" "sel \<noteq> []"
      and f: "f \<in> set sel"
    by auto
  from select_firms_props[OF sel(1)] f old have f': "f < length (firms m)" "f \<noteq> old" by auto
  have w2: "w < length (workers ?m2)" using w by simp
  have old2: "employer (workers ?m2 ! w) = Some old" using old w by simp
  have "consistent (switch_employer w f ?m2)"
    by (rule switch_employer_consistent[OF c2 w2 _ old2 f'(2)]) (simp add: f')
  moreover obtain sz where "workers (switch_employer w f ?m2) =
     (workers ?m2)[w := (workers ?m2 ! w)\<lparr>employer := Some f, employer_id := Some f, employer_size := sz\<rparr>]"
    using switch_employer_workers by blast
  moreover have "length (firms (switch_employer w f ?m2)) = length (firms m)"
    using switch_employer_firms[OF old2, of f] by simp
  ultimately show ?thesis using 1(3) by simp
next
  case (2 f wg)
  then show ?thesis using upd_worker_consistent[OF c, of "\<lambda>me. me\<lparr>search := True\<rparr>" w] by simp
qed

subsection \<open>Loops and phases\<close>

lemma for_each_invariant:
  assumes "for_each body xs s = Inr s'" and "P s"
    and "\<And>x t t'. x \<in> set xs \<Longrightarrow> P t \<Longrightarrow> body x t = Inr t' \<Longrightarrow> P t'"
  shows "P s'"
  using assms
proof (induction xs arbitrary: s)
  case Nil
  then show ?case by simp
next
  case (Cons x xs)
  from Cons.prems(1) obtain t where t: "body x s = Inr t" "for_each body xs t = Inr s'"
    by (auto split: sum.splits)
  have pt: "P t" using Cons.prems(3)[of x s t] Cons.prems(2) t(1) by simp
  show ?case
  proof (rule Cons.IH[OF t(2) pt])
    fix y u u'
    assume "y \<in> set xs" "P u" "body y u = Inr u'"
    then show "P u'" using Cons.prems(3)[of y u u'] by simp
  qed
qed

lemma market_inv_frame:
  assumes "market_inv p m" "same_links (workers m) (workers m')" "same_rosters (firms m) (firms m')"
  shows "market_inv p m'"
  using assms consistent_frame[of m m']
  by (simp add: market_inv_def same_links_def same_rosters_def)

lemma reset_counters_inv:
  assumes "market_inv p m"
  shows "market_inv p (reset_counters m)"
  by (rule market_inv_frame[OF assms])
     (simp_all add: reset_counters_def same_links_def same_rosters_refl)

lemma education_phase_inv:
  assumes "market_inv p m" "education_phase p r sel m = Inr m'"
  shows "market_inv p m'"
proof (rule for_each_invariant[OF assms(2)[unfolded education_phase_def], of "market_inv p"])
  show "market_inv p m" by fact
next
  fix w t t'
  assume t: "market_inv p t"
    and b: "(if \<not> educ (workers t ! w)
             then education_decision w (premium p) (weighted p) (rnd_coin r w) t else Inr t) = Inr t'"
  show "market_inv p t'"
  proof (cases "educ (workers t ! w)")
    case True
    then show ?thesis using t b by simp
  next
    case False
    then have "education_decision w (premium p) (weighted p) (rnd_coin r w) t = Inr t'"
      using b by simp
    from education_decision_frame[OF this] show ?thesis
      using market_inv_frame[OF t] by (simp add: same_rosters_refl)
  qed
qed

lemma selection_phase_inv:
  assumes "market_inv p m" "selection_phase p r sel m = Inr m'" "\<forall>w\<in>set sel. w < n_workers p"
  shows "market_inv p m'"
proof (rule for_each_invariant[OF assms(2)[unfolded selection_phase_def], of "market_inv p"])
  show "market_inv p m" by fact
next
  fix w t t'
  assume w: "w \<in> set sel" and t: "market_inv p t"
    and b: "firm_selection w (sample p) (rnd_firms r w) t = Inr t'"
  have "w < length (workers t)" using w t assms(3) by (simp add: market_inv_def)
  from firm_selection_consistent[OF _ this b] t show "market_inv p t'"
    by (simp add: market_inv_def)
qed

lemma refresh_employer_size_inv:
  assumes "market_inv p m" "refresh_employer_size m = Inr m'"
  shows "market_inv p m'"
proof (rule for_each_invariant[OF assms(2)[unfolded refresh_employer_size_def], of "market_inv p"])
  show "market_inv p m" by fact
next
  fix w t t'
  assume t: "market_inv p t"
    and b: "(case employer (workers t ! w) of None \<Rightarrow> Inl AttributeError
             | Some f \<Rightarrow> Inr (upd_worker w (\<lambda>me. me\<lparr>employer_size := Some (size_f (firms t ! f))\<rparr>) t)) = Inr t'"
  then obtain f where "t' = upd_worker w (\<lambda>me. me\<lparr>employer_size := Some (size_f (firms t ! f))\<rparr>) t"
    by (auto split: option.splits)
  then show "market_inv p t'"
    using market_inv_frame[OF t, of t'] upd_worker_frame[of "\<lambda>me. me\<lparr>employer_size := Some (size_f (firms t ! f))\<rparr>" t w]
    by (simp add: same_rosters_refl)
qed

lemma production_phase_inv:
  assumes "market_inv p m"
  shows "market_inv p (production_phase m)"
  by (rule market_inv_frame[OF assms])
     (simp_all add: production_phase_def Let_def same_links_refl same_rosters_def produce_def calc_profit_def)

lemma market_update_inv:
  assumes "market_inv p m"
  shows "market_inv p (market_update m)"
  by (rule market_inv_frame[OF assms]) (simp_all add: market_update_def same_links_refl same_rosters_refl)

lemma market_step_inv:
  assumes "market_inv p m" "market_step p r m = Inr m'"
  shows "market_inv p m'"
proof -
  let ?m1 = "reset_counters m"
  from assms(2) obtain sel m2 m3 m4 where
    sel: "agents_random (rnd_active r) [0..<length (workers ?m1)] \<lceil>real (n_workers p) * active p\<rceil> = Inr sel"
    and m2: "education_phase p r sel ?m1 = Inr m2"
    and m3: "selection_phase p r sel m2 = Inr m3"
    and m4: "refresh_employer_size m3 = Inr m4"
    and m': "m' = production_phase m4"
    by (auto simp: market_step_def Let_def split: sum.splits)
  have i1: "market_inv p ?m1" using assms(1) by (rule reset_counters_inv)
  have "set sel \<subseteq> set [0..<length (workers ?m1)]" using agents_random_props[OF sel] by simp
  then have range: "\<forall>w\<in>set sel. w < n_workers p" using i1 by (auto simp: market_inv_def)
  have i2: "market_inv p m2" using education_phase_inv[OF i1 m2] .
  have i3: "market_inv p m3" using selection_phase_inv[OF i2 m3 range] .
  have i4: "market_inv p m4" using refresh_employer_size_inv[OF i3 m4] .
  show ?thesis unfolding m' using i4 by (rule production_phase_inv)
qed

subsection \<open>Setup\<close>

lemma worker_setup_fresh:
  assumes "worker_setup p rc rp = Inr me"
  shows "employer me = None \<and> employer_id me = None \<and> (d_class me = 0 \<or> d_class me = 1) \<and>
         \<not> educ me \<and> prod_w me = of_int (fst (prod_range p) + int (rp mod nat (snd (prod_range p) - fst (prod_range p) + 1)))"
proof -
  have "rc mod 2 = 0 \<or> rc mod 2 = 1" by auto
  then have "[1, 0 :: int] ! (rc mod 2) = 0 \<or> [1, 0 :: int] ! (rc mod 2) = 1" by auto
  then show ?thesis using assms
    by (auto simp: worker_setup_def randint_def split: sum.splits if_splits)
qed

lemma for_each_append_length:
  assumes "for_each (\<lambda>i ws. case g i of Inl e \<Rightarrow> Inl e | Inr me \<Rightarrow> Inr (ws @ [me])) xs s = Inr s'"
  shows "length s' = length s + length xs"
  using assms
proof (induction xs arbitrary: s)
  case Nil
  then show ?case by simp
next
  case (Cons x xs)
  then show ?case by (auto split: sum.splits)
qed

lemma hired_upto_step:
  assumes q: "hired_upto k m" and k: "k < length (workers m)" and kf: "k < length (firms m)"
  shows "hired_upto (Suc k) (initial_hire k m) \<and>
         length (workers (initial_hire k m)) = length (workers m) \<and>
         length (firms (initial_hire k m)) = length (firms m)"
proof -
  let ?W = "workers m" and ?F = "firms m"
  let ?me = "(?W ! k)\<lparr>employer := Some k, employer_id := Some k, employer_size := Some (size_f (?F ! k))\<rparr>"
  let ?W1 = "?W[k := ?me]"
  let ?F2 = "?F[k := hire ?W1 k (?F ! k)]"
  let ?m' = "initial_hire k m"
  have W': "workers ?m' = ?W1[k := (?W1 ! k)\<lparr>wage := calc_wage (?F2 ! k) (?W1 ! k)\<rparr>]"
    by (simp add: initial_hire_def update_employer_def Let_def)
  have F': "firms ?m' = ?F2"
    by (simp add: initial_hire_def update_employer_def Let_def)
  have dcl: "\<And>v. d_class (workers ?m' ! v) = d_class (?W ! v)"
    unfolding W' by (simp add: nth_upd)
  have dcl1: "\<And>v. d_class (?W1 ! v) = d_class (?W ! v)"
    by (simp add: nth_upd)
  have emp0: "employees (?F ! k) = []" using q kf by (simp add: hired_upto_def)
  have a: "\<forall>w<length (workers ?m').
         (d_class (workers ?m' ! w) = 0 \<or> d_class (workers ?m' ! w) = 1) \<and>
         employer (workers ?m' ! w) = (if w < Suc k then Some w else None) \<and>
         employer_id (workers ?m' ! w) = (if w < Suc k then Some w else None)"
  proof (intro allI impI)
    fix w assume "w < length (workers ?m')"
    then have w: "w < length ?W" unfolding W' by simp
    have old: "(d_class (?W ! w) = 0 \<or> d_class (?W ! w) = 1) \<and>
         employer (?W ! w) = (if w < k then Some w else None) \<and>
         employer_id (?W ! w) = (if w < k then Some w else None)"
      using q w by (simp add: hired_upto_def)
    show "(d_class (workers ?m' ! w) = 0 \<or> d_class (workers ?m' ! w) = 1) \<and>
         employer (workers ?m' ! w) = (if w < Suc k then Some w else None) \<and>
         employer_id (workers ?m' ! w) = (if w < Suc k then Some w else None)"
    proof (cases "w = k")
      case True
      then show ?thesis using old k dcl[of w] unfolding W' by simp
    next
      case False
      then show ?thesis using old w dcl[of w] unfolding W' by (auto simp: nth_upd)
    qed
  qed
  have b: "\<forall>f<length (firms ?m').
         employees (firms ?m' ! f) = (if f < Suc k then [f] else []) \<and>
         sizes_ok (workers ?m') (firms ?m' ! f)"
  proof (intro allI impI)
    fix f assume "f < length (firms ?m')"
    then have f: "f < length ?F" unfolding F' by simp
    have old: "employees (?F ! f) = (if f < k then [f] else [])" "sizes_ok ?W (?F ! f)"
      using q f by (simp_all add: hired_upto_def)
    have e: "employees (firms ?m' ! f) = (if f < Suc k then [f] else [])"
      unfolding F' using old(1) emp0 f kf by (auto simp: nth_upd employees_hire)
    have so1: "sizes_ok ?W1 (firms ?m' ! f)"
    proof (cases "f = k")
      case True
      then show ?thesis unfolding F' using kf by (simp add: sizes_ok_hire)
    next
      case False
      have "sizes_ok ?W1 (?F ! f)"
        by (rule sizes_ok_cong[OF old(2)]) (simp_all add: dcl1)
      then show ?thesis unfolding F' using False by simp
    qed
    have "sizes_ok (workers ?m') (firms ?m' ! f)"
      by (rule sizes_ok_cong[OF so1]) (simp_all add: dcl dcl1)
    with e show "employees (firms ?m' ! f) = (if f < Suc k then [f] else []) \<and>
         sizes_ok (workers ?m') (firms ?m' ! f)" by simp
  qed
  show ?thesis unfolding hired_upto_def using a b W' F' by simp
qed

lemma hired_upto_fold:
  assumes "hired_upto 0 m" "k \<le> length (workers m)" "length (workers m) \<le> length (firms m)"
  shows "hired_upto k (fold initial_hire [0..<k] m) \<and>
         length (workers (fold initial_hire [0..<k] m)) = length (workers m) \<and>
         length (firms (fold initial_hire [0..<k] m)) = length (firms m)"
  using assms(2)
proof (induction k)
  case 0
  then show ?case using assms(1) by simp
next
  case (Suc k)
  let ?m = "fold initial_hire [0..<k] m"
  have ih: "hired_upto k ?m" "length (workers ?m) = length (workers m)"
    "length (firms ?m) = length (firms m)"
    using Suc by simp_all
  have "k < length (workers ?m)" "k < length (firms ?m)" using Suc.prems ih assms(3) by simp_all
  from hired_upto_step[OF ih(1) this] ih show ?case by simp
qed

lemma hired_upto_consistent:
  assumes "hired_upto (length (workers m)) m" "length (workers m) \<le> length (firms m)"
  shows "consistent m"
  unfolding consistent_def
proof (intro conjI allI impI ballI)
  fix w assume w: "w < length (workers m)"
  then have "w < length (firms m)" using assms(2) by simp
  then show "\<exists>f<length (firms m). employer (workers m ! w) = Some f \<and>
       employer_id (workers m ! w) = Some f \<and> w \<in> set (employees (firms m ! f))"
    using assms(1) w by (auto simp: hired_upto_def)
  show "d_class (workers m ! w) = 0 \<or> d_class (workers m ! w) = 1"
    using assms(1) w by (simp add: hired_upto_def)
next
  fix f w assume f: "f < length (firms m)" and w: "w \<in> set (employees (firms m ! f))"
  have e: "employees (firms m ! f) = (if f < length (workers m) then [f] else [])"
    using assms(1) f by (simp add: hired_upto_def)
  then have wf: "w = f" "f < length (workers m)" using w by (auto split: if_splits)
  show "w < length (workers m)" using wf by simp
  show "employer (workers m ! w) = Some f" using assms(1) wf by (simp add: hired_upto_def)
next
  fix f assume f: "f < length (firms m)"
  have e: "employees (firms m ! f) = (if f < length (workers m) then [f] else [])"
    using assms(1) f by (simp add: hired_upto_def)
  then show "distinct (employees (firms m ! f))" by simp
  show "sizes_ok (workers m) (firms m ! f)" using assms(1) f by (simp add: hired_upto_def)
qed

lemma market_setup_inv:
  assumes "market_setup p r = Inr m"
  shows "market_inv p m"
proof -
  let ?body = "\<lambda>i ws. case worker_setup p (rnd_class r i) (rnd_prod r i) of
                               Inl e \<Rightarrow> Inl e | Inr me \<Rightarrow> Inr (ws @ [me])"
  from assms obtain ws where ws: "for_each ?body [0..<n_workers p] [] = Inr ws"
    and m: "m = fold initial_hire [0..<n_workers p]
                 \<lparr>workers = ws,
                  firms = map (\<lambda>j. firm_setup p (rnd_d r j)) [0..<2 * n_workers p + 1],
                  recorded = []\<rparr>"
    by (auto simp: market_setup_def split: sum.splits)
  let ?m0 = "\<lparr>workers = ws, firms = map (\<lambda>j. firm_setup p (rnd_d r j)) [0..<2 * n_workers p + 1],
                  recorded = []\<rparr>"
  have len: "length ws = n_workers p" using for_each_append_length[OF ws] by simp
  have fresh: "\<forall>me\<in>set ws. employer me = None \<and> employer_id me = None \<and> (d_class me = 0 \<or> d_class me = 1)"
  proof (rule for_each_invariant[OF ws, of "\<lambda>ws. \<forall>me\<in>set ws. employer me = None \<and> employer_id me = None \<and> (d_class me = 0 \<or> d_class me = 1)"])
    show "\<forall>me\<in>set []. employer me = None \<and> employer_id me = None \<and> (d_class me = 0 \<or> d_class me = 1)"
      by simp
  next
    fix i t t'
    assume t: "\<forall>me\<in>set t. employer me = None \<and> employer_id me = None \<and> (d_class me = 0 \<or> d_class me = 1)"
      and b: "?body i t = Inr t'"
    from b obtain me where me: "worker_setup p (rnd_class r i) (rnd_prod r i) = Inr me" "t' = t @ [me]"
      by (auto split: sum.splits)
    show "\<forall>me\<in>set t'. employer me = None \<and> employer_id me = None \<and> (d_class me = 0 \<or> d_class me = 1)"
      using t worker_setup_fresh[OF me(1)] me(2) by auto
  qed
  have fnth: "\<And>f. f < 2 * n_workers p + 1 \<Longrightarrow>
      map (\<lambda>j. firm_setup p (rnd_d r j)) [0..<2 * n_workers p + 1] ! f = firm_setup p (rnd_d r f)"
    by (simp del: upt_Suc)
  have h0: "hired_upto 0 ?m0"
    unfolding hired_upto_def using fresh len
    by (auto simp del: upt_Suc simp add: fnth firm_setup_def sizes_ok_def)
  have l0: "n_workers p \<le> length (workers ?m0)" "length (workers ?m0) \<le> length (firms ?m0)"
    using len by simp_all
  from hired_upto_fold[OF h0 l0] m len
  have "hired_upto (length (workers m)) m" "length (workers m) = n_workers p"
    "length (firms m) = 2 * n_workers p + 1" by simp_all
  then show ?thesis using hired_upto_consistent[of m] by (simp add: market_inv_def)
qed

lemma reachable_inv: "reachable p m \<Longrightarrow> market_inv p m"
proof (induction rule: reachable.induct)
  case (after_setup r m)
  then show ?case by (rule market_setup_inv)
next
  case (after_step m r m')
  show ?case by (rule market_step_inv[OF after_step.IH after_step.hyps(2)])
next
  case (after_update m)
  show ?case by (rule market_update_inv[OF after_update.IH])
qed

subsection \<open>Conservation\<close>

lemma consistent_sum_sizes:
  assumes c: "consistent m"
  shows "sum_list (map size_f (firms m)) = length (workers m)"
proof -
  let ?F = "firms m" and ?W = "workers m"
  let ?A = "\<lambda>f. set (employees (?F ! f))"
  have sz: "\<And>f. f < length ?F \<Longrightarrow> size_f (?F ! f) = card (?A f)"
    using c by (simp add: consistent_def sizes_ok_def distinct_card)
  have rb: "\<And>f w. f < length ?F \<Longrightarrow> w \<in> ?A f \<Longrightarrow> employer (?W ! w) = Some f"
    using c unfolding consistent_def by blast
  have "sum_list (map size_f ?F) = (\<Sum>f = 0..<length ?F. size_f (?F ! f))"
    by (simp add: sum_list_sum_nth)
  also have "\<dots> = (\<Sum>f\<in>{0..<length ?F}. card (?A f))"
    by (rule sum.cong) (simp_all add: sz)
  also have "\<dots> = card (\<Union>f\<in>{0..<length ?F}. ?A f)"
  proof (rule card_UN_disjoint[symmetric])
    show "finite {0..<length ?F}" by simp
    show "\<forall>i\<in>{0..<length ?F}. finite (?A i)" by simp
    show "\<forall>i\<in>{0..<length ?F}. \<forall>j\<in>{0..<length ?F}. i \<noteq> j \<longrightarrow> ?A i \<inter> ?A j = {}"
    proof (intro ballI impI)
      fix i j assume i: "i \<in> {0..<length ?F}" and j: "j \<in> {0..<length ?F}" and ne: "i \<noteq> j"
      show "?A i \<inter> ?A j = {}"
      proof (rule ccontr)
        assume "?A i \<inter> ?A j \<noteq> {}"
        then obtain w where w: "w \<in> ?A i" "w \<in> ?A j" by auto
        have "employer (?W ! w) = Some i" using rb[OF _ w(1)] i by simp
        moreover have "employer (?W ! w) = Some j" using rb[OF _ w(2)] j by simp
        ultimately show False using ne by simp
      qed
    qed
  qed
  also have "(\<Union>f\<in>{0..<length ?F}. ?A f) = {0..<length ?W}"
  proof
    show "(\<Union>f\<in>{0..<length ?F}. ?A f) \<subseteq> {0..<length ?W}"
      using c by (auto simp: consistent_def)
    show "{0..<length ?W} \<subseteq> (\<Union>f\<in>{0..<length ?F}. ?A f)"
    proof
      fix w assume "w \<in> {0..<length ?W}"
      then have "w < length ?W" by simp
      then obtain f where "f < length ?F" "w \<in> ?A f"
        using c unfolding consistent_def by blast
      then show "w \<in> (\<Union>f\<in>{0..<length ?F}. ?A f)" by auto
    qed
  qed
  finally show ?thesis by simp
qed

lemma sizes_ok_split:
  assumes "sizes_ok ws f" and "\<forall>e\<in>set (employees f). d_class (ws ! e) = 0 \<or> d_class (ws ! e) = 1"
  shows "size_f f = size_0 f + size_1 f"
proof -
  have "filter (\<lambda>e. d_class (ws ! e) = 1) (employees f) =
        filter (\<lambda>e. \<not> d_class (ws ! e) = 0) (employees f)"
    using assms(2) by (intro filter_cong) auto
  then have "size_1 f = length (filter (\<lambda>e. \<not> d_class (ws ! e) = 0) (employees f))"
    using assms(1) by (simp add: sizes_ok_def)
  moreover have "size_0 f = length (filter (\<lambda>e. d_class (ws ! e) = 0) (employees f))"
    using assms(1) by (simp add: sizes_ok_def)
  moreover have "size_f f = length (employees f)" using assms(1) by (simp add: sizes_ok_def)
  ultimately show ?thesis
    using sum_length_filter_compl[of "\<lambda>e. d_class (ws ! e) = 0" "employees f"] by simp
qed

lemma distinct_count_list_one: "distinct xs \<Longrightarrow> x \<in> set xs \<Longrightarrow> count_list xs x = 1"
  by (induction xs) (auto simp: count_list_0_iff)

subsection \<open>Education is a latch\<close>

lemma worker_later_refl: "worker_later prem a a"
  by (simp add: worker_later_def)

lemma worker_later_trans: "worker_later prem a b \<Longrightarrow> worker_later prem b c \<Longrightarrow> worker_later prem a c"
  by (auto simp: worker_later_def)

lemma later_refl: "later prem m m"
  by (simp add: later_def worker_later_refl)

lemma later_trans: "later prem a b \<Longrightarrow> later prem b c \<Longrightarrow> later prem a c"
  unfolding later_def using worker_later_trans by metis

lemma later_same:
  assumes "length (workers m') = length (workers m)"
    and "\<And>w. w < length (workers m) \<Longrightarrow>
           educ (workers m' ! w) = educ (workers m ! w) \<and> prod_w (workers m' ! w) = prod_w (workers m ! w)"
  shows "later prem m m'"
  using assms by (simp add: later_def worker_later_def)

lemma upd_worker_later:
  assumes "worker_later prem (workers m ! w) (g (workers m ! w))"
  shows "later prem m (upd_worker w g m)"
  using assms by (simp add: later_def nth_upd worker_later_refl)

lemma get_education_later:
  assumes "\<not> educ (workers m ! w)"
  shows "later prem m (get_education w prem m)"
proof -
  let ?m1 = "upd_worker w (\<lambda>me. me\<lparr>educ := True, prod_w := prod_w me * (1 + prem)\<rparr>) m"
  have "prod_w x \<le> prod_w x * (1 + prem)" if "0 \<le> prem" "0 \<le> prod_w x" for x :: worker
  proof -
    have "0 \<le> prod_w x * prem" using that by simp
    then show ?thesis by (simp add: algebra_simps)
  qed
  then have 1: "later prem m ?m1"
    using assms by (intro upd_worker_later) (simp add: worker_later_def)
  have 2: "later prem ?m1 (get_education w prem m)"
    unfolding get_education_def Let_def
    by (cases "employer (workers ?m1 ! w)")
       (simp_all add: later_refl upd_worker_later worker_later_def)
  show ?thesis using later_trans[OF 1 2] .
qed

lemma education_decision_later:
  assumes "\<not> educ (workers m ! w)" "education_decision w prem wtd coin m = Inr m'"
  shows "later prem m m'"
  using assms get_education_later[OF assms(1), of prem]
  by (auto simp: education_decision_def Let_def later_refl split: if_splits pyfloat.splits)

lemma for_each_later:
  assumes "for_each body xs s = Inr s'"
    and "\<And>x t t'. x \<in> set xs \<Longrightarrow> body x t = Inr t' \<Longrightarrow> later prem t t'"
  shows "later prem s s'"
proof (rule for_each_invariant[OF assms(1), of "later prem s"])
  show "later prem s s" by (rule later_refl)
next
  fix x t t' assume "x \<in> set xs" "later prem s t" "body x t = Inr t'"
  then show "later prem s t'" using assms(2) later_trans by blast
qed

lemma education_phase_later:
  assumes "education_phase p r sel m = Inr m'"
  shows "later (premium p) m m'"
proof (rule for_each_later[OF assms[unfolded education_phase_def]])
  fix w t t'
  assume b: "(if \<not> educ (workers t ! w)
             then education_decision w (premium p) (weighted p) (rnd_coin r w) t else Inr t) = Inr t'"
  show "later (premium p) t t'"
  proof (cases "educ (workers t ! w)")
    case True
    then show ?thesis using b by (simp add: later_refl)
  next
    case False
    then show ?thesis using b education_decision_later[OF False] by simp
  qed
qed

lemma firm_selection_later:
  assumes "firm_selection w n r m = Inr m'"
  shows "later prem m m'"
  using assms
proof (cases rule: firm_selection_cases)
  case (1 f wg)
  let ?m2 = "upd_worker w (\<lambda>me. me\<lparr>switched := Some True, wage := wg\<rparr>)
                 (upd_worker w (\<lambda>me. me\<lparr>search := True\<rparr>) m)"
  obtain sz where W': "workers m' =
     (workers ?m2)[w := (workers ?m2 ! w)\<lparr>employer := Some f, employer_id := Some f, employer_size := sz\<rparr>]"
    using switch_employer_workers 1(3) by blast
  show ?thesis
    by (rule later_same) (simp_all add: W' nth_upd)
next
  case (2 f wg)
  show ?thesis by (rule later_same) (simp_all add: 2(3) nth_upd)
qed

lemma selection_phase_later:
  assumes "selection_phase p r sel m = Inr m'"
  shows "later prem m m'"
  by (rule for_each_later[OF assms[unfolded selection_phase_def]]) (rule firm_selection_later)

lemma refresh_employer_size_later:
  assumes "refresh_employer_size m = Inr m'"
  shows "later prem m m'"
proof (rule for_each_later[OF assms[unfolded refresh_employer_size_def]])
  fix w t t'
  assume "(case employer (workers t ! w) of None \<Rightarrow> Inl AttributeError
           | Some f \<Rightarrow> Inr (upd_worker w (\<lambda>me. me\<lparr>employer_size := Some (size_f (firms t ! f))\<rparr>) t)) = Inr t'"
  then obtain f where "t' = upd_worker w (\<lambda>me. me\<lparr>employer_size := Some (size_f (firms t ! f))\<rparr>) t"
    by (auto split: option.splits)
  then show "later prem t t'" by (simp add: upd_worker_later worker_later_def)
qed

lemma market_step_later:
  assumes "market_step p r m = Inr m'"
  shows "later (premium p) m m'"
proof -
  let ?m1 = "reset_counters m"
  from assms obtain sel m2 m3 m4 where
    m2: "education_phase p r sel ?m1 = Inr m2"
    and m3: "selection_phase p r sel m2 = Inr m3"
    and m4: "refresh_employer_size m3 = Inr m4"
    and m': "m' = production_phase m4"
    by (auto simp: market_step_def Let_def split: sum.splits)
  have 1: "later (premium p) m ?m1"
    by (rule later_same) (simp_all add: reset_counters_def)
  have 5: "later (premium p) m4 m'"
    unfolding m' by (rule later_same) (simp_all add: production_phase_def Let_def)
  show ?thesis
    using 1 education_phase_later[OF m2] selection_phase_later[OF m3, of "premium p"]
      refresh_employer_size_later[OF m4, of "premium p"] 5 later_trans by blast
qed

lemma evolves_later: "evolves p m m' \<Longrightarrow> later (premium p) m m'"
proof (induction rule: evolves.induct)
  case (evolves_refl m)
  show ?case by (rule later_refl)
next
  case (evolves_step m m' r m'')
  show ?case by (rule later_trans[OF evolves_step.IH market_step_later[OF evolves_step.hyps(2)]])
next
  case (evolves_update m m')
  have "later (premium p) m' (market_update m')"
    by (rule later_same) (simp_all add: market_update_def)
  then show ?case using evolves_update.IH later_trans by blast
qed

subsection \<open>The example run\<close>

lemma calc_wage_flat: "d_factor f = 0 \<Longrightarrow> price f = 1 \<Longrightarrow> calc_wage f w = prod_w w"
  by (simp add: calc_wage_def Let_def)

lemma calc_avg_d_num:
  assumes "consistent m" "x < length (workers m)"
  shows "\<exists>d. calc_avg_d m wtd = Num d"
proof -
  obtain f where f: "f < length (firms m)" "x \<in> set (employees (firms m ! f))"
    using assms unfolding consistent_def by blast
  have "size_f (firms m ! f) = length (employees (firms m ! f))"
    using assms(1) f(1) by (simp add: consistent_def sizes_ok_def)
  then have "0 < size_f (firms m ! f)" using f(2) by (cases "employees (firms m ! f)") auto
  moreover have "firms m ! f \<in> set (firms m)" using f(1) by simp
  ultimately have "filter (\<lambda>f. 0 < size_f f) (firms m) \<noteq> []"
    by (auto simp: filter_empty_conv)
  then show ?thesis by (simp add: calc_avg_d_def Let_def)
qed

lemma flat_frame:
  assumes "flat p m" "same_links (workers m) (workers m')" "same_rosters (firms m) (firms m')"
    and "\<And>f. f < length (firms m) \<Longrightarrow> d_factor (firms m' ! f) = d_factor (firms m ! f) \<and>
            price (firms m' ! f) = price (firms m ! f)"
    and "\<And>w. w < length (workers m) \<Longrightarrow> prod_w (workers m' ! w) = 10 \<and> wage (workers m' ! w) = 10 \<and>
            hrs (workers m' ! w) = 8 \<and> avg_prod (workers m' ! w) = 10"
  shows "flat p m'"
proof -
  have "market_inv p m" using assms(1) by (simp add: flat_def)
  then have "market_inv p m'" using assms(2,3) by (rule market_inv_frame)
  moreover have "length (workers m') = length (workers m)" "length (firms m') = length (firms m)"
    using assms(2,3) by (simp_all add: same_links_def same_rosters_def)
  ultimately show ?thesis using assms(1,4,5) by (simp add: flat_def)
qed

lemma upd_worker_flat:
  assumes "flat p m"
    and "\<And>x. employer (g x) = employer x \<and> employer_id (g x) = employer_id x \<and> d_class (g x) = d_class x \<and>
           prod_w (g x) = prod_w x \<and> wage (g x) = wage x \<and> hrs (g x) = hrs x \<and> avg_prod (g x) = avg_prod x"
  shows "flat p (upd_worker w g m)"
proof (rule flat_frame[OF assms(1)])
  show "same_links (workers m) (workers (upd_worker w g m))"
    by (rule upd_worker_frame) (simp add: assms(2))
  show "same_rosters (firms m) (firms (upd_worker w g m))" by (simp add: same_rosters_refl)
  show "\<And>f. f < length (firms m) \<Longrightarrow> d_factor (firms (upd_worker w g m) ! f) = d_factor (firms m ! f) \<and>
            price (firms (upd_worker w g m) ! f) = price (firms m ! f)" by simp
  show "\<And>v. v < length (workers m) \<Longrightarrow> prod_w (workers (upd_worker w g m) ! v) = 10 \<and>
        wage (workers (upd_worker w g m) ! v) = 10 \<and>
        hrs (workers (upd_worker w g m) ! v) = 8 \<and> avg_prod (workers (upd_worker w g m) ! v) = 10"
    using assms by (simp add: flat_def nth_upd)
qed

lemma get_education_flat:
  assumes fl: "flat p m" and x: "x < length (workers m)"
  shows "flat p (get_education x 0 m) \<and> educ (workers (get_education x 0 m) ! x) \<and>
         (\<forall>v. v \<noteq> x \<longrightarrow> educ (workers (get_education x 0 m) ! v) = educ (workers m ! v))"
proof -
  have c: "consistent m" using fl by (simp add: flat_def market_inv_def)
  obtain f where f: "f < length (firms m)" "employer (workers m ! x) = Some f"
    using c x unfolding consistent_def by blast
  have ff: "d_factor (firms m ! f) = 0" "price (firms m ! f) = 1" using fl f(1) by (simp_all add: flat_def)
  have px: "prod_w (workers m ! x) = 10" "wage (workers m ! x) = 10" using fl x by (simp_all add: flat_def)
  let ?g = "\<lambda>me. me\<lparr>educ := True\<rparr>"
  have eq: "get_education x 0 m = upd_worker x ?g m"
  proof -
    have "workers (get_education x 0 m) = workers (upd_worker x ?g m)"
      using f(2) x px ff
      by (simp add: get_education_def Let_def calc_wage_flat list_eq_iff_nth_eq nth_upd)
    moreover have "firms (get_education x 0 m) = firms m" "recorded (get_education x 0 m) = recorded m"
      using get_education_frame[of m x 0] by simp_all
    ultimately show ?thesis by (simp add: upd_worker_def)
  qed
  have "flat p (upd_worker x ?g m)" by (rule upd_worker_flat[OF fl]) simp
  then show ?thesis unfolding eq using x by (simp add: nth_upd)
qed

lemma education_decision_flat:
  assumes fl: "flat p m" and x: "x < length (workers m)"
  shows "\<exists>m'. education_decision x 0 wtd coin m = Inr m' \<and> flat p m' \<and>
           educ (workers m' ! x) = (educ (workers m ! x) \<or> [True, False] ! (coin 0 mod 2)) \<and>
           (\<forall>v. v \<noteq> x \<longrightarrow> educ (workers m' ! v) = educ (workers m ! v))"
proof -
  have c: "consistent m" using fl by (simp add: flat_def market_inv_def)
  have px: "prod_w (workers m ! x) = 10" using fl x by (simp add: flat_def)
  obtain d where d: "calc_avg_d m wtd = Num d" using calc_avg_d_num[OF c x] by blast
  have b: "benefit m x 0 wtd = Num 0"
    by (simp add: benefit_def Let_def d)
  have ed: "education_decision x 0 wtd coin m =
      (if [True, False] ! (coin 0 mod 2) then Inr (get_education x 0 m) else Inr m)"
    by (simp add: education_decision_def Let_def px b)
  show ?thesis
  proof (cases "[True, False] ! (coin 0 mod 2)")
    case True
    then show ?thesis using ed get_education_flat[OF fl x] by simp
  next
    case False
    then show ?thesis using ed fl by simp
  qed
qed

lemma for_each_total:
  assumes "P s" and "\<And>x t. x \<in> set xs \<Longrightarrow> P t \<Longrightarrow> \<exists>t'. body x t = Inr t' \<and> P t'"
  shows "\<exists>s'. for_each body xs s = Inr s' \<and> P s'"
  using assms
proof (induction xs arbitrary: s)
  case Nil
  then show ?case by simp
next
  case (Cons x xs)
  obtain t where t: "body x s = Inr t" "P t" using Cons.prems(2)[of x s] Cons.prems(1) by auto
  have "\<exists>s'. for_each body xs t = Inr s' \<and> P s'"
  proof (rule Cons.IH[OF t(2)])
    fix y u assume "y \<in> set xs" "P u"
    then show "\<exists>t'. body y u = Inr t' \<and> P t'" using Cons.prems(2)[of y u] by simp
  qed
  then show ?case using t(1) by simp
qed

lemma education_phase_flat:
  assumes "flat p m" "premium p = 0" "distinct sel" "\<forall>w\<in>set sel. w < n_workers p"
  shows "\<exists>m'. education_phase p r sel m = Inr m' \<and> flat p m' \<and>
           (\<forall>v. educ (workers m' ! v) =
                  (educ (workers m ! v) \<or> (v \<in> set sel \<and> [True, False] ! (rnd_coin r v 0 mod 2))))"
  using assms(1,3,4)
proof (induction sel arbitrary: m)
  case Nil
  then show ?case by (simp add: education_phase_def)
next
  case (Cons x xs)
  let ?body = "\<lambda>w m'. if \<not> educ (workers m' ! w)
                       then education_decision w (premium p) (weighted p) (rnd_coin r w) m'
                       else Inr m'"
  have x: "x < length (workers m)" using Cons.prems by (simp add: flat_def market_inv_def)
  have "\<exists>m1. ?body x m = Inr m1 \<and> flat p m1 \<and>
          educ (workers m1 ! x) = (educ (workers m ! x) \<or> [True, False] ! (rnd_coin r x 0 mod 2)) \<and>
          (\<forall>v. v \<noteq> x \<longrightarrow> educ (workers m1 ! v) = educ (workers m ! v))"
  proof (cases "educ (workers m ! x)")
    case True
    then show ?thesis using Cons.prems(1) by simp
  next
    case False
    then show ?thesis
      using education_decision_flat[OF Cons.prems(1) x, of "weighted p" "rnd_coin r x"] assms(2)
      by simp
  qed
  then obtain m1 where m1: "?body x m = Inr m1" "flat p m1"
      "educ (workers m1 ! x) = (educ (workers m ! x) \<or> [True, False] ! (rnd_coin r x 0 mod 2))"
      "\<forall>v. v \<noteq> x \<longrightarrow> educ (workers m1 ! v) = educ (workers m ! v)"
    by blast
  have "distinct xs" "\<forall>w\<in>set xs. w < n_workers p" "x \<notin> set xs" using Cons.prems by simp_all
  from Cons.IH[OF m1(2) this(1,2)] obtain m' where m': "education_phase p r xs m1 = Inr m'" "flat p m'"
      "\<forall>v. educ (workers m' ! v) =
             (educ (workers m1 ! v) \<or> (v \<in> set xs \<and> [True, False] ! (rnd_coin r v 0 mod 2)))"
    by blast
  have run: "education_phase p r (x # xs) m = Inr m'"
    using m1(1) m'(1) by (simp add: education_phase_def)
  have "\<forall>v. educ (workers m' ! v) =
             (educ (workers m ! v) \<or> (v \<in> set (x # xs) \<and> [True, False] ! (rnd_coin r v 0 mod 2)))"
    using m'(3) m1(3,4) \<open>x \<notin> set xs\<close> by auto
  with run m'(2) show ?case by blast
qed

lemma firm_selection_flat:
  assumes fl: "flat p m" and w: "w < length (workers m)"
  shows "\<exists>m'. firm_selection w 1 r m = Inr m' \<and> flat p m' \<and>
           (\<forall>v. educ (workers m' ! v) = educ (workers m ! v))"
proof -
  have c: "consistent m" and lf: "length (firms m) = 2 * length (workers m) + 1"
    using fl by (simp_all add: flat_def market_inv_def)
  obtain e where e: "employer_id (workers m ! w) = Some e" "e < length (firms m)"
    using c w unfolding consistent_def by blast
  let ?cands = "filter (\<lambda>f. Some f \<noteq> employer_id (workers m ! w)) [0..<length (firms m)]"
  let ?g = "if e = 0 then 1 else (0::nat)"
  have "?g < length (firms m)" "?g \<noteq> e" using lf w by auto
  then have gin: "?g \<in> set ?cands" using e(1) by auto
  from gin have "0 < length ?cands" by (rule length_pos_if_in_set)
  then have ne: "?cands \<noteq> []" by (cases ?cands) simp_all
  let ?x = "?cands ! (r 0 mod length ?cands)"
  have "?x \<in> set ?cands" using ne by (intro nth_mem) simp
  then have xlt: "?x < length (firms m)" by auto
  have sel: "select_firms w 1 r m = Inr [?x]"
    using ne by (simp add: select_firms_def agents_random_def choice_def)
  have off: "wage_offers m w [?x] = [10]"
    using fl xlt w by (simp add: wage_offers_def calc_wage_flat flat_def)
  have rk: "rank_firms w 1 r m = Inr (?x, 10)"
    unfolding rank_firms_def sel by (simp add: off)
  have wg: "wage (workers m ! w) = 10" using fl w by (simp add: flat_def)
  have fs: "firm_selection w 1 r m = Inr (upd_worker w (\<lambda>me. me\<lparr>search := True\<rparr>) m)"
    unfolding firm_selection_def Let_def rank_firms_search rk using wg w by simp
  have "flat p (upd_worker w (\<lambda>me. me\<lparr>search := True\<rparr>) m)"
    by (rule upd_worker_flat[OF fl]) simp
  then show ?thesis using fs by (simp add: nth_upd)
qed

lemma selection_phase_flat:
  assumes "flat p m" "sample p = 1" "\<forall>w\<in>set sel. w < n_workers p"
  shows "\<exists>m'. selection_phase p r sel m = Inr m' \<and> flat p m' \<and>
           (\<forall>v. educ (workers m' ! v) = educ (workers m ! v))"
  unfolding selection_phase_def
proof (rule for_each_total[of "\<lambda>t. flat p t \<and> (\<forall>v. educ (workers t ! v) = educ (workers m ! v))"])
  show "flat p m \<and> (\<forall>v. educ (workers m ! v) = educ (workers m ! v))" using assms(1) by simp
next
  fix w t
  assume w: "w \<in> set sel" and t: "flat p t \<and> (\<forall>v. educ (workers t ! v) = educ (workers m ! v))"
  have "w < length (workers t)" using w t assms(3) by (simp add: flat_def market_inv_def)
  from firm_selection_flat[OF _ this, of p "rnd_firms r w"] t
  show "\<exists>t'. firm_selection w (sample p) (rnd_firms r w) t = Inr t' \<and>
          flat p t' \<and> (\<forall>v. educ (workers t' ! v) = educ (workers m ! v))"
    using assms(2) by auto
qed

lemma refresh_employer_size_flat:
  assumes "flat p m"
  shows "\<exists>m'. refresh_employer_size m = Inr m' \<and> flat p m' \<and>
           (\<forall>v. educ (workers m' ! v) = educ (workers m ! v))"
  unfolding refresh_employer_size_def
proof (rule for_each_total[of "\<lambda>t. flat p t \<and> (\<forall>v. educ (workers t ! v) = educ (workers m ! v))"])
  show "flat p m \<and> (\<forall>v. educ (workers m ! v) = educ (workers m ! v))" using assms by simp
next
  fix w t
  assume w: "w \<in> set [0..<length (workers m)]"
    and t: "flat p t \<and> (\<forall>v. educ (workers t ! v) = educ (workers m ! v))"
  have "length (workers t) = length (workers m)" using t assms by (simp add: flat_def market_inv_def)
  then have wl: "w < length (workers t)" using w by simp
  have "consistent t" using t by (simp add: flat_def market_inv_def)
  then obtain f where f: "employer (workers t ! w) = Some f" using wl unfolding consistent_def by blast
  let ?t' = "upd_worker w (\<lambda>me. me\<lparr>employer_size := Some (size_f (firms t ! f))\<rparr>) t"
  have "flat p ?t'" by (rule upd_worker_flat) (simp_all add: t)
  moreover have "\<forall>v. educ (workers ?t' ! v) = educ (workers m ! v)" using t by (simp add: nth_upd)
  ultimately show "\<exists>t'. (case employer (workers t ! w) of None \<Rightarrow> Inl AttributeError
           | Some f \<Rightarrow> Inr (upd_worker w (\<lambda>me. me\<lparr>employer_size := Some (size_f (firms t ! f))\<rparr>) t)) = Inr t' \<and>
          flat p t' \<and> (\<forall>v. educ (workers t' ! v) = educ (workers m ! v))"
    using f by simp
qed

lemma production_phase_flat:
  assumes fl: "flat p m"
  shows "flat p (production_phase m) \<and> workers (production_phase m) = workers m \<and>
         (\<forall>f<length (firms m).
             profit (firms (production_phase m) ! f) = 0 \<and>
             revenue (firms (production_phase m) ! f) = 80 * real (size_f (firms m ! f)) \<and>
             costs (firms (production_phase m) ! f) = 80 * real (size_f (firms m ! f)) \<and>
             size_f (firms (production_phase m) ! f) = size_f (firms m ! f))"
proof -
  let ?W = "workers m" and ?F = "firms m"
  have c: "consistent m" using fl by (simp add: flat_def market_inv_def)
  have W: "workers (production_phase m) = ?W" by (simp add: production_phase_def Let_def)
  have F: "\<And>f. f < length ?F \<Longrightarrow>
      firms (production_phase m) ! f = calc_profit ?W (produce ?W (?F ! f))"
    by (simp add: production_phase_def Let_def)
  have lenF: "length (firms (production_phase m)) = length ?F"
    by (simp add: production_phase_def Let_def)
  have sums: "sum_list (map (\<lambda>e. prod_w (?W ! e) * hrs (?W ! e)) (employees (?F ! f))) = 80 * real (size_f (?F ! f)) \<and>
              sum_list (map (\<lambda>e. wage (?W ! e) * hrs (?W ! e)) (employees (?F ! f))) = 80 * real (size_f (?F ! f))"
    if f: "f < length ?F" for f
  proof -
    have mem: "\<And>e. e \<in> set (employees (?F ! f)) \<Longrightarrow> e < length ?W"
      using c f unfolding consistent_def by blast
    have a: "map (\<lambda>e. prod_w (?W ! e) * hrs (?W ! e)) (employees (?F ! f)) = map (\<lambda>e. 80) (employees (?F ! f))"
      using mem fl by (intro map_cong) (simp_all add: flat_def)
    have b: "map (\<lambda>e. wage (?W ! e) * hrs (?W ! e)) (employees (?F ! f)) = map (\<lambda>e. 80) (employees (?F ! f))"
      using mem fl by (intro map_cong) (simp_all add: flat_def)
    have s: "size_f (?F ! f) = length (employees (?F ! f))"
      using c f by (simp add: consistent_def sizes_ok_def)
    show ?thesis unfolding a b s by (simp add: sum_list_triv)
  qed
  have pr: "\<And>f. f < length ?F \<Longrightarrow> price (?F ! f) = 1" using fl by (simp add: flat_def)
  have vals: "\<forall>f<length ?F.
             profit (firms (production_phase m) ! f) = 0 \<and>
             revenue (firms (production_phase m) ! f) = 80 * real (size_f (?F ! f)) \<and>
             costs (firms (production_phase m) ! f) = 80 * real (size_f (?F ! f)) \<and>
             size_f (firms (production_phase m) ! f) = size_f (?F ! f)"
    using sums pr by (simp add: F calc_profit_def produce_def Let_def)
  have "flat p (production_phase m)"
  proof (rule flat_frame[OF fl])
    show "same_links ?W (workers (production_phase m))" by (simp add: W same_links_refl)
    show "same_rosters ?F (firms (production_phase m))"
      by (simp add: same_rosters_def lenF F calc_profit_def produce_def Let_def)
    show "\<And>f. f < length ?F \<Longrightarrow> d_factor (firms (production_phase m) ! f) = d_factor (?F ! f) \<and>
            price (firms (production_phase m) ! f) = price (?F ! f)"
      by (simp add: F calc_profit_def produce_def Let_def)
    show "\<And>w. w < length ?W \<Longrightarrow> prod_w (workers (production_phase m) ! w) = 10 \<and>
            wage (workers (production_phase m) ! w) = 10 \<and>
            hrs (workers (production_phase m) ! w) = 8 \<and> avg_prod (workers (production_phase m) ! w) = 10"
      using fl by (simp add: W flat_def)
  qed
  then show ?thesis using W vals by simp
qed

lemma d_factor_hire [simp]: "d_factor (hire ws w f) = d_factor f"
  and price_hire [simp]: "price (hire ws w f) = price f"
  by (simp_all add: hire_def set_size_def)

lemma initial_hire_flat_start:
  assumes fs: "flat_start m" and i: "i < length (firms m)"
  shows "flat_start (initial_hire i m) \<and> length (workers (initial_hire i m)) = length (workers m) \<and>
         length (firms (initial_hire i m)) = length (firms m)"
proof -
  let ?W = "workers m" and ?F = "firms m"
  let ?me = "(?W ! i)\<lparr>employer := Some i, employer_id := Some i, employer_size := Some (size_f (?F ! i))\<rparr>"
  let ?W1 = "?W[i := ?me]"
  let ?F2 = "?F[i := hire ?W1 i (?F ! i)]"
  let ?m' = "initial_hire i m"
  have W': "workers ?m' = ?W1[i := (?W1 ! i)\<lparr>wage := calc_wage (?F2 ! i) (?W1 ! i)\<rparr>]"
    by (simp add: initial_hire_def update_employer_def Let_def)
  have F': "firms ?m' = ?F2"
    by (simp add: initial_hire_def update_employer_def Let_def)
  have fi: "d_factor (?F2 ! i) = 0" "price (?F2 ! i) = 1"
    using fs i by (simp_all add: flat_start_def)
  have a: "\<forall>f<length (firms ?m'). d_factor (firms ?m' ! f) = 0 \<and> price (firms ?m' ! f) = 1"
    unfolding F' using fs by (simp add: flat_start_def nth_upd)
  have b: "\<forall>w<length (workers ?m').
         prod_w (workers ?m' ! w) = 10 \<and> hrs (workers ?m' ! w) = 8 \<and>
         avg_prod (workers ?m' ! w) = 10 \<and> \<not> educ (workers ?m' ! w) \<and>
         (employer (workers ?m' ! w) = None \<or> wage (workers ?m' ! w) = 10)"
  proof (intro allI impI)
    fix w assume "w < length (workers ?m')"
    then have w: "w < length ?W" unfolding W' by simp
    have old: "prod_w (?W ! w) = 10" "hrs (?W ! w) = 8" "avg_prod (?W ! w) = 10" "\<not> educ (?W ! w)"
      "employer (?W ! w) = None \<or> wage (?W ! w) = 10"
      using fs w by (simp_all add: flat_start_def)
    show "prod_w (workers ?m' ! w) = 10 \<and> hrs (workers ?m' ! w) = 8 \<and>
         avg_prod (workers ?m' ! w) = 10 \<and> \<not> educ (workers ?m' ! w) \<and>
         (employer (workers ?m' ! w) = None \<or> wage (workers ?m' ! w) = 10)"
    proof (cases "w = i")
      case True
      then show ?thesis unfolding W' using old w by (simp add: calc_wage_flat[OF fi])
    next
      case False
      then show ?thesis unfolding W' using old w by (simp add: nth_upd)
    qed
  qed
  show ?thesis unfolding flat_start_def using a b W' F' by simp
qed

lemma flat_start_fold:
  assumes "flat_start m" "k \<le> length (firms m)"
  shows "flat_start (fold initial_hire [0..<k] m) \<and>
         length (workers (fold initial_hire [0..<k] m)) = length (workers m) \<and>
         length (firms (fold initial_hire [0..<k] m)) = length (firms m)"
  using assms(2)
proof (induction k)
  case 0
  then show ?case using assms(1) by simp
next
  case (Suc k)
  let ?m = "fold initial_hire [0..<k] m"
  have ih: "flat_start ?m" "length (workers ?m) = length (workers m)"
    "length (firms ?m) = length (firms m)"
    using Suc by simp_all
  have "k < length (firms ?m)" using Suc.prems ih by simp
  from initial_hire_flat_start[OF ih(1) this] ih show ?case by simp
qed

lemma market_setup_flat:
  assumes pr: "prod_range p = (10, 10)" and dr: "d_range p = (0, 0)"
  shows "\<exists>m. market_setup p r = Inr m \<and> flat p m \<and> (\<forall>w<length (workers m). \<not> educ (workers m ! w))"
proof -
  let ?body = "\<lambda>i ws. case worker_setup p (rnd_class r i) (rnd_prod r i) of
                               Inl e \<Rightarrow> Inl e | Inr me \<Rightarrow> Inr (ws @ [me])"
  let ?P = "\<lambda>ws :: worker list. \<forall>me\<in>set ws. prod_w me = 10 \<and> hrs me = 8 \<and> avg_prod me = 10 \<and> \<not> educ me \<and> employer me = None"
  have "\<exists>ws. for_each ?body [0..<n_workers p] [] = Inr ws \<and> ?P ws"
  proof (rule for_each_total[of ?P])
    show "?P []" by simp
  next
    fix i t assume "?P t"
    then show "\<exists>t'. ?body i t = Inr t' \<and> ?P t'"
      by (auto simp: worker_setup_def randint_def pr)
  qed
  then obtain ws where ws: "for_each ?body [0..<n_workers p] [] = Inr ws" "?P ws" by blast
  let ?ini = "\<lparr>workers = ws, firms = map (\<lambda>j. firm_setup p (rnd_d r j)) [0..<2 * n_workers p + 1],
                  recorded = []\<rparr>"
  define m where "m = fold initial_hire [0..<n_workers p] ?ini"
  have ms: "market_setup p r = Inr m" by (simp add: market_setup_def ws(1) m_def)
  have inv: "market_inv p m" using ms by (rule market_setup_inv)
  have fnth: "\<And>f. f < 2 * n_workers p + 1 \<Longrightarrow>
      map (\<lambda>j. firm_setup p (rnd_d r j)) [0..<2 * n_workers p + 1] ! f = firm_setup p (rnd_d r f)"
    by (simp del: upt_Suc)
  have fs0: "d_factor (firm_setup p u) = 0 \<and> price (firm_setup p u) = 1" for u
    by (simp add: firm_setup_def dr uniform_def round2_def)
  have st0: "flat_start ?ini"
    unfolding flat_start_def using ws(2)
    by (auto simp del: upt_Suc simp add: fnth fs0)
  have "n_workers p \<le> length (firms ?ini)" by simp
  from flat_start_fold[OF st0 this] have st: "flat_start m" unfolding m_def by simp
  have c: "consistent m" using inv by (simp add: market_inv_def)
  have emp: "\<And>w. w < length (workers m) \<Longrightarrow> employer (workers m ! w) \<noteq> None"
    using c unfolding consistent_def by fastforce
  have wages: "\<And>w. w < length (workers m) \<Longrightarrow> wage (workers m ! w) = 10"
    using st emp unfolding flat_start_def by blast
  have "flat p m"
    unfolding flat_def using inv st wages by (simp add: flat_start_def)
  moreover have "\<forall>w<length (workers m). \<not> educ (workers m ! w)"
    using st by (simp add: flat_start_def)
  ultimately show ?thesis using ms by blast
qed

lemma reset_counters_flat:
  assumes "flat p m"
  shows "flat p (reset_counters m) \<and> (\<forall>v<length (workers m). educ (workers (reset_counters m) ! v) = educ (workers m ! v))"
proof -
  have "flat p (reset_counters m)"
    by (rule flat_frame[OF assms])
       (use assms in \<open>simp_all add: reset_counters_def same_links_def same_rosters_refl flat_def\<close>)
  then show ?thesis by (simp add: reset_counters_def)
qed

lemma market_update_flat:
  assumes "flat p m"
  shows "flat p (market_update m)"
  by (rule flat_frame[OF assms])
     (use assms in \<open>simp_all add: market_update_def same_links_refl same_rosters_refl flat_def\<close>)

lemma full_selection:
  assumes "distinct sel" "length sel = n" "set sel \<subseteq> {0..<n}"
  shows "set sel = {0..<n}"
proof (rule card_subset_eq)
  show "finite {0..<n}" by simp
  show "set sel \<subseteq> {0..<n}" by fact
  show "card (set sel) = card {0..<n}" using assms(1,2) by (simp add: distinct_card)
qed

lemma market_step_flat:
  assumes fl: "flat p m" and n: "n_workers p = 2" and prem: "premium p = 0"
    and act: "active p = 1" and smp: "sample p = 1"
  shows "\<exists>m'. market_step p r m = Inr m' \<and> flat p m' \<and>
           (\<forall>v<2. educ (workers m' ! v) =
                    (educ (workers m ! v) \<or> [True, False] ! (rnd_coin r v 0 mod 2))) \<and>
           (\<forall>f<length (firms m').
               profit (firms m' ! f) = 0 \<and>
               revenue (firms m' ! f) = 80 * real (size_f (firms m' ! f)) \<and>
               costs (firms m' ! f) = 80 * real (size_f (firms m' ! f)))"
proof -
  let ?m1 = "reset_counters m"
  have lw: "length (workers m) = 2" using fl n by (simp add: flat_def market_inv_def)
  have f1: "flat p ?m1" and e1: "\<forall>v<2. educ (workers ?m1 ! v) = educ (workers m ! v)"
    using reset_counters_flat[OF fl] lw by simp_all
  have lw1: "length (workers ?m1) = 2" using f1 n by (simp add: flat_def market_inv_def)
  define sel where "sel = draw (rnd_active r) [0..<length (workers ?m1)] 2"
  have ar: "agents_random (rnd_active r) [0..<length (workers ?m1)] \<lceil>real (n_workers p) * active p\<rceil> = Inr sel"
    unfolding sel_def using lw1 n act by (simp add: agents_random_def random_sample_def)
  from agents_random_props[OF ar] have sp: "set sel \<subseteq> {0..<2}" "length sel = 2" "distinct sel"
    using lw1 n act by auto
  have full: "set sel = {0..<2}" using full_selection[OF sp(3) sp(2) sp(1)] .
  have range: "\<forall>w\<in>set sel. w < n_workers p" using full n by simp
  obtain m2 where m2: "education_phase p r sel ?m1 = Inr m2" "flat p m2"
      "\<forall>v. educ (workers m2 ! v) =
             (educ (workers ?m1 ! v) \<or> (v \<in> set sel \<and> [True, False] ! (rnd_coin r v 0 mod 2)))"
    using education_phase_flat[OF f1 prem sp(3) range] by blast
  obtain m3 where m3: "selection_phase p r sel m2 = Inr m3" "flat p m3"
      "\<forall>v. educ (workers m3 ! v) = educ (workers m2 ! v)"
    using selection_phase_flat[OF m2(2) smp range] by blast
  obtain m4 where m4: "refresh_employer_size m3 = Inr m4" "flat p m4"
      "\<forall>v. educ (workers m4 ! v) = educ (workers m3 ! v)"
    using refresh_employer_size_flat[OF m3(2)] by blast
  let ?m' = "production_phase m4"
  have st: "market_step p r m = Inr ?m'"
    by (simp add: market_step_def Let_def ar m2(1) m3(1) m4(1))
  from production_phase_flat[OF m4(2)]
  have p5: "flat p ?m'" "workers ?m' = workers m4"
    "\<forall>f<length (firms m4).
             profit (firms ?m' ! f) = 0 \<and>
             revenue (firms ?m' ! f) = 80 * real (size_f (firms m4 ! f)) \<and>
             costs (firms ?m' ! f) = 80 * real (size_f (firms m4 ! f)) \<and>
             size_f (firms ?m' ! f) = size_f (firms m4 ! f)"
    by simp_all
  have lf: "length (firms ?m') = length (firms m4)"
    using p5(1) m4(2) by (simp add: flat_def market_inv_def)
  have ed: "\<forall>v<2. educ (workers ?m' ! v) =
                    (educ (workers m ! v) \<or> [True, False] ! (rnd_coin r v 0 mod 2))"
    using p5(2) m4(3) m3(3) m2(3) e1 full by simp
  have pf: "\<forall>f<length (firms ?m').
               profit (firms ?m' ! f) = 0 \<and>
               revenue (firms ?m' ! f) = 80 * real (size_f (firms ?m' ! f)) \<and>
               costs (firms ?m' ! f) = 80 * real (size_f (firms ?m' ! f))"
    using p5(3) lf by simp
  from st p5(1) ed pf show ?thesis by blast
qed

subsection \<open>Productivity is not negative\<close>

lemma initial_hire_prod:
  "map prod_w (workers (initial_hire i m)) = map prod_w (workers m)"
proof (rule nth_equalityI)
  show "length (map prod_w (workers (initial_hire i m))) = length (map prod_w (workers m))"
    by (simp add: initial_hire_def update_employer_def Let_def)
next
  fix k assume "k < length (map prod_w (workers (initial_hire i m)))"
  then have k: "k < length (workers m)"
    by (simp add: initial_hire_def update_employer_def Let_def)
  have "prod_w (workers (initial_hire i m) ! k) = prod_w (workers m ! k)"
    by (simp add: initial_hire_def update_employer_def Let_def nth_upd)
  then show "map prod_w (workers (initial_hire i m)) ! k = map prod_w (workers m) ! k"
    using k by (simp add: initial_hire_def update_employer_def Let_def)
qed

lemma fold_initial_hire_prod:
  "map prod_w (workers (fold initial_hire xs m)) = map prod_w (workers m)"
  by (induction xs arbitrary: m) (simp_all add: initial_hire_prod)

lemma market_setup_prod_nonneg:
  assumes "market_setup p r = Inr m" and lo: "0 \<le> fst (prod_range p)"
  shows "\<forall>me\<in>set (workers m). 0 \<le> prod_w me"
proof -
  let ?body = "\<lambda>i ws. case worker_setup p (rnd_class r i) (rnd_prod r i) of
                               Inl e \<Rightarrow> Inl e | Inr me \<Rightarrow> Inr (ws @ [me])"
  from assms(1) obtain ws where ws: "for_each ?body [0..<n_workers p] [] = Inr ws"
    and m: "m = fold initial_hire [0..<n_workers p]
                 \<lparr>workers = ws,
                  firms = map (\<lambda>j. firm_setup p (rnd_d r j)) [0..<2 * n_workers p + 1],
                  recorded = []\<rparr>"
    by (auto simp: market_setup_def split: sum.splits)
  have nn: "\<forall>me\<in>set ws. 0 \<le> prod_w me"
  proof (rule for_each_invariant[OF ws, of "\<lambda>ws :: worker list. \<forall>me\<in>set ws. 0 \<le> prod_w me"])
    show "\<forall>me\<in>set ([] :: worker list). 0 \<le> prod_w me" by simp
  next
    fix i and t t' :: "worker list"
    assume t: "\<forall>me\<in>set t. 0 \<le> prod_w me" and b: "?body i t = Inr t'"
    from b obtain me where me: "worker_setup p (rnd_class r i) (rnd_prod r i) = Inr me" "t' = t @ [me]"
      by (auto split: sum.splits)
    have "0 \<le> prod_w me" using worker_setup_fresh[OF me(1)] lo by simp
    then show "\<forall>me\<in>set t'. 0 \<le> prod_w me" using t me(2) by simp
  qed
  have eq: "map prod_w (workers m) = map prod_w ws"
    unfolding m by (simp add: fold_initial_hire_prod)
  show ?thesis
  proof
    fix me assume "me \<in> set (workers m)"
    then have "prod_w me \<in> set (map prod_w (workers m))" by simp
    then have "prod_w me \<in> set (map prod_w ws)" using eq by simp
    then obtain me' where "me' \<in> set ws" "prod_w me = prod_w me'" by auto
    then show "0 \<le> prod_w me" using nn by simp
  qed
qed

lemma reachable_prod_nonneg:
  assumes "reachable p m" and "0 \<le> premium p" and "0 \<le> fst (prod_range p)"
  shows "\<forall>w<length (workers m). 0 \<le> prod_w (workers m ! w)"
  using assms(1)
proof (induction rule: reachable.induct)
  case (after_setup r m)
  then show ?case using market_setup_prod_nonneg[OF _ assms(3)] by simp
next
  case (after_step m r m')
  have l: "later (premium p) m m'" using after_step.hyps(2) by (rule market_step_later)
  show ?case
  proof (intro allI impI)
    fix w assume "w < length (workers m')"
    then have w: "w < length (workers m)" using l by (simp add: later_def)
    then have "0 \<le> prod_w (workers m ! w)" using after_step.IH by simp
    moreover have "worker_later (premium p) (workers m ! w) (workers m' ! w)"
      using l w by (simp add: later_def)
    ultimately show "0 \<le> prod_w (workers m' ! w)" using assms(2) by (simp add: worker_later_def)
  qed
next
  case (after_update m)
  then show ?case by (simp add: market_update_def)
qed

section \<open>The claims\<close>

text \<open>
  C3.  In every state at the end of \<open>setup\<close>, of a \<open>step\<close> or of an \<open>update\<close>, whatever
  the random draws: there are \<open>n_workers\<close> workers; every worker has an employer, is
  exactly once on that firm's roster and is on no other roster; for every firm \<open>size\<close>
  is the length of the roster and the sum of the two class sizes; and the sizes of all
  firms add up to \<open>n_workers\<close>.
\<close>

theorem roster_conservation:
  assumes "reachable p m"
  shows "length (workers m) = n_workers p \<and>
    (\<forall>w<length (workers m). \<exists>f<length (firms m).
        employer (workers m ! w) = Some f \<and>
        count_list (employees (firms m ! f)) w = 1 \<and>
        (\<forall>g<length (firms m). w \<in> set (employees (firms m ! g)) \<longrightarrow> g = f)) \<and>
    (\<forall>f<length (firms m).
        size_f (firms m ! f) = length (employees (firms m ! f)) \<and>
        size_f (firms m ! f) = size_0 (firms m ! f) + size_1 (firms m ! f)) \<and>
    sum_list (map size_f (firms m)) = n_workers p"
proof -
  have inv: "market_inv p m" using assms by (rule reachable_inv)
  then have c: "consistent m" and len: "length (workers m) = n_workers p"
    by (simp_all add: market_inv_def)
  have rb: "\<And>g w. g < length (firms m) \<Longrightarrow> w \<in> set (employees (firms m ! g)) \<Longrightarrow>
       w < length (workers m) \<and> employer (workers m ! w) = Some g"
    using c unfolding consistent_def by blast
  have a: "\<forall>w<length (workers m). \<exists>f<length (firms m).
        employer (workers m ! w) = Some f \<and>
        count_list (employees (firms m ! f)) w = 1 \<and>
        (\<forall>g<length (firms m). w \<in> set (employees (firms m ! g)) \<longrightarrow> g = f)"
  proof (intro allI impI)
    fix w assume w: "w < length (workers m)"
    then obtain f where f: "f < length (firms m)" "employer (workers m ! w) = Some f"
        "w \<in> set (employees (firms m ! f))"
      using c unfolding consistent_def by blast
    have "distinct (employees (firms m ! f))" using c f(1) by (simp add: consistent_def)
    then have one: "count_list (employees (firms m ! f)) w = 1"
      using f(3) by (rule distinct_count_list_one)
    have "\<forall>g<length (firms m). w \<in> set (employees (firms m ! g)) \<longrightarrow> g = f"
      using rb f(2) by fastforce
    with f one show "\<exists>f<length (firms m).
        employer (workers m ! w) = Some f \<and>
        count_list (employees (firms m ! f)) w = 1 \<and>
        (\<forall>g<length (firms m). w \<in> set (employees (firms m ! g)) \<longrightarrow> g = f)" by blast
  qed
  have b: "\<forall>f<length (firms m).
        size_f (firms m ! f) = length (employees (firms m ! f)) \<and>
        size_f (firms m ! f) = size_0 (firms m ! f) + size_1 (firms m ! f)"
  proof (intro allI impI)
    fix f assume f: "f < length (firms m)"
    have so: "sizes_ok (workers m) (firms m ! f)" using c f by (simp add: consistent_def)
    have cl: "\<forall>e\<in>set (employees (firms m ! f)).
        d_class (workers m ! e) = 0 \<or> d_class (workers m ! e) = 1"
      using c rb[OF f] by (simp add: consistent_def)
    show "size_f (firms m ! f) = length (employees (firms m ! f)) \<and>
        size_f (firms m ! f) = size_0 (firms m ! f) + size_1 (firms m ! f)"
      using so sizes_ok_split[OF so cl] by (simp add: sizes_ok_def)
  qed
  have d: "sum_list (map size_f (firms m)) = n_workers p"
    using consistent_sum_sizes[OF c] len by simp
  from len a b d show ?thesis by blast
qed

theorem roster_conservation_witness:
  "reachable switch_params switch_market_after \<and>
   map employer (workers switch_market_after) = [Some 1] \<and>
   map employees (firms switch_market_after) = [[], [0], []] \<and>
   map size_f (firms switch_market_after) = [0, 1, 0] \<and>
   sum_list (map size_f (firms switch_market_after)) = n_workers switch_params"
proof -
  have s: "market_setup switch_params switch_setup_rand = Inr switch_market"
    unfolding switch_market_def by code_simp
  have t: "market_step switch_params switch_step_rand switch_market = Inr switch_market_after"
    unfolding switch_market_after_def by code_simp
  have r: "reachable switch_params switch_market_after"
    by (rule after_step[OF after_setup[OF s] t])
  have v: "map employer (workers switch_market_after) = [Some 1]"
    "map employees (firms switch_market_after) = [[], [0], []]"
    "map size_f (firms switch_market_after) = [0, 1, 0]"
    by code_simp+
  show ?thesis using roster_conservation[OF r] r v by simp
qed

text \<open>
  C4.  For every firm \<open>F\<close> and worker \<open>W\<close>, \<open>calc_wage\<close> returns
  \<open>price \<times> productivity \<times> (1 - discount_factor)\<close> when the worker's class is the
  firm's flagged class, and \<open>price \<times> productivity\<close> otherwise.  The function reads the
  firm and the worker and returns a number: it has no state to return, as the source
  assigns to no attribute.
\<close>

theorem calc_wage_discount:
  "(d_class W = d_class_f F \<longrightarrow> calc_wage F W = price F * prod_w W * (1 - d_factor F)) \<and>
   (d_class W \<noteq> d_class_f F \<longrightarrow> calc_wage F W = price F * prod_w W)"
  by (simp add: calc_wage_def)

theorem calc_wage_discount_witness:
  "d_class (workers switch_market ! 0) = d_class_f (firms switch_market ! 0) \<and>
   calc_wage (firms switch_market ! 0) (workers switch_market ! 0) = 1 * 20 * (1 - 1 / 2) \<and>
   d_class (workers class0_market ! 1) \<noteq> d_class_f (firms class0_market ! 0) \<and>
   calc_wage (firms class0_market ! 0) (workers class0_market ! 1) = 1 * 13"
proof -
  have a: "d_class (workers switch_market ! 0) = d_class_f (firms switch_market ! 0)"
    by code_simp
  have b: "d_class (workers class0_market ! 1) \<noteq> d_class_f (firms class0_market ! 0)"
    by code_simp
  have c: "price (firms switch_market ! 0) = 1" "prod_w (workers switch_market ! 0) = 20"
    "d_factor (firms switch_market ! 0) = 1 / 2"
    "price (firms class0_market ! 0) = 1" "prod_w (workers class0_market ! 1) = 13"
    by code_simp+
  show ?thesis
    using calc_wage_discount[of "workers switch_market ! 0" "firms switch_market ! 0"]
      calc_wage_discount[of "workers class0_market ! 1" "firms class0_market ! 0"] a b c
    by simp
qed

text \<open>
  C1.  The flags that \<open>Market.step\<close> resets and \<open>Market.update\<close> records are \<open>search\<close>
  and \<open>switch\<close>; \<open>firm_selection\<close> sets \<open>search\<close> and \<open>switched\<close>.  In the run below
  the worker leaves firm 0 for firm 1 in the first step: the row recorded after the
  step shows the new employer and \<open>search = True\<close>, but \<open>switch = False\<close>, while the
  attribute \<open>switched\<close> of the worker is \<open>True\<close>.
\<close>

theorem switch_flag_not_recorded:
  "map_sum id (\<lambda>m. (map fst (recorded m), map switched (workers m)))
     (run switch_params switch_setup_rand (\<lambda>t. switch_step_rand)) =
   Inr ([[WorkerRow 1 20 8 (Some 0) (Some 0) (Some 0) 10 False False False],
         [WorkerRow 1 20 8 (Some 1) (Some 1) (Some 1) 20 False True False]],
        [Some True])"
  by code_simp

text \<open>
  C2.  \<open>education_decision\<close> compares the worker's class with the constant 1, not with
  the configured \<open>d_class\<close>.  With class 0 configured as the discriminated class and an
  average discount of one half, the benefit of the class-0 worker is left at
  \<open>13 \<times> 1/5\<close> and that worker gets an education, while the benefit of the class-1
  worker is halved and that worker does not.
\<close>

theorem education_decision_ignores_d_class:
  "p_d_class class0_params = 0 \<and>
   map d_class (workers class0_market) = [0, 1] \<and>
   map d_class_f (firms class0_market) = [0, 0, 0, 0, 0] \<and>
   calc_avg_d class0_market True = Num (1 / 2) \<and>
   benefit class0_market 0 (1 / 5) True = Num (13 / 5) \<and>
   benefit class0_market 1 (1 / 5) True = Num (13 / 10) \<and>
   map_sum id (\<lambda>m. educ (workers m ! 0))
     (education_decision 0 (1 / 5) True (\<lambda>k. 0) class0_market) = Inr True \<and>
   map_sum id (\<lambda>m. educ (workers m ! 1))
     (education_decision 1 (1 / 5) True (\<lambda>k. 0) class0_market) = Inr False"
  by code_simp

text \<open>
  C5.  As stated, the claim fails twice in the example run.  Cost and benefit are both
  0, and the tie is resolved by \<open>random.choice([True, False])\<close>: when it draws \<open>True\<close>
  the worker gets an education.  And the output of a firm is productivity times hours,
  so a firm with one employee has revenue \<open>10 \<times> 8 \<times> 1 = 80\<close>, costs \<open>10 \<times> 8 = 80\<close> and
  profit 0, not \<open>-70\<close>.
\<close>

theorem example_run_counterexample:
  "map_sum id (\<lambda>m. (map educ (workers m),
                     map (\<lambda>f. (size_f f, revenue f, costs f, profit f)) (firms m)))
     (run flat_params switch_setup_rand (\<lambda>t. flat_step_rand)) =
   Inr ([True, True],
        [(1, 80, 80, 0), (1, 80, 80, 0), (0, 0, 0, 0), (0, 0, 0, 0), (0, 0, 0, 0)])"
  by code_simp

text \<open>
  C5, amended.  For a run configured with \<open>n_workers = 2\<close>, \<open>prod_range = [10, 10]\<close>,
  \<open>d_range = [0, 0]\<close>, \<open>premium = 0\<close>, \<open>active = 1.0\<close>, \<open>sample = 1\<close>, \<open>steps = 1\<close>, and
  for all random draws: the run completes; every worker ends with productivity 10 and
  wage 10, and the offer of every firm to every worker is \<open>10 \<times> price\<close>, whatever the
  class; a worker ends educated exactly when its tie-break draws \<open>True\<close>; the profit of
  every firm is 0, a firm with exactly one employee having revenue \<open>10 \<times> 8 \<times> 1\<close> and
  costs \<open>10 \<times> 8\<close>; and these are the values of the last recorded rows.
\<close>

theorem flat_run:
  assumes n: "n_workers p = 2" and pr: "prod_range p = (10, 10)" and dr: "d_range p = (0, 0)"
    and prem: "premium p = 0" and act: "active p = 1" and smp: "sample p = 1" and st: "steps p = 1"
  shows "\<exists>m. run p r rs = Inr m \<and> length (workers m) = 2 \<and> length (firms m) = 5 \<and>
     (\<forall>w<2. prod_w (workers m ! w) = 10 \<and> wage (workers m ! w) = 10 \<and>
            (\<forall>f<5. calc_wage (firms m ! f) (workers m ! w) = 10 * price (firms m ! f)) \<and>
            educ (workers m ! w) = [True, False] ! (rnd_coin (rs 1) w 0 mod 2)) \<and>
     (\<forall>f<5. profit (firms m ! f) = 0 \<and>
            (size_f (firms m ! f) = 1 \<longrightarrow>
               revenue (firms m ! f) = 10 * 8 * 1 \<and> costs (firms m ! f) = 10 * 8)) \<and>
     last (recorded m) = (map worker_record (workers m), map firm_record (firms m))"
proof -
  obtain m0 where m0: "market_setup p r = Inr m0" "flat p m0"
      "\<forall>w<length (workers m0). \<not> educ (workers m0 ! w)"
    using market_setup_flat[OF pr dr] by blast
  let ?u0 = "market_update m0"
  have u0: "flat p ?u0" using m0(2) by (rule market_update_flat)
  have lw0: "length (workers m0) = 2" using m0(2) n by (simp add: flat_def market_inv_def)
  have e0: "\<forall>w<2. \<not> educ (workers ?u0 ! w)" using m0(3) lw0 by (simp add: market_update_def)
  obtain m1 where m1: "market_step p (rs 1) ?u0 = Inr m1" "flat p m1"
      "\<forall>v<2. educ (workers m1 ! v) =
               (educ (workers ?u0 ! v) \<or> [True, False] ! (rnd_coin (rs 1) v 0 mod 2))"
      "\<forall>f<length (firms m1).
               profit (firms m1 ! f) = 0 \<and>
               revenue (firms m1 ! f) = 80 * real (size_f (firms m1 ! f)) \<and>
               costs (firms m1 ! f) = 80 * real (size_f (firms m1 ! f))"
    using market_step_flat[OF u0 n prem act smp] by blast
  let ?m = "market_update m1"
  have m1s: "market_step p (rs (Suc 0)) ?u0 = Inr m1" using m1(1) by simp
  have rn: "run p r rs = Inr ?m"
    by (simp add: run_def m0(1) st m1s)
  have W: "workers ?m = workers m1" and F: "firms ?m = firms m1"
    and R: "last (recorded ?m) = (map worker_record (workers ?m), map firm_record (firms ?m))"
    by (simp_all add: market_update_def)
  have lw: "length (workers m1) = 2" and lf: "length (firms m1) = 5"
    using m1(2) n by (simp_all add: flat_def market_inv_def)
  have a: "\<forall>w<2. prod_w (workers m1 ! w) = 10 \<and> wage (workers m1 ! w) = 10 \<and>
            (\<forall>f<5. calc_wage (firms m1 ! f) (workers m1 ! w) = 10 * price (firms m1 ! f)) \<and>
            educ (workers m1 ! w) = [True, False] ! (rnd_coin (rs 1) w 0 mod 2)"
    using m1(2,3) e0 lw lf by (simp add: flat_def calc_wage_flat)
  have b: "\<forall>f<5. profit (firms m1 ! f) = 0 \<and>
            (size_f (firms m1 ! f) = 1 \<longrightarrow>
               revenue (firms m1 ! f) = 10 * 8 * 1 \<and> costs (firms m1 ! f) = 10 * 8)"
    using m1(4) lf by simp
  show ?thesis
    apply (rule exI[of _ ?m])
    unfolding W F using rn lw lf a b R[unfolded W F] by simp
qed

theorem flat_run_witness:
  "n_workers flat_params = 2 \<and> prod_range flat_params = (10, 10) \<and>
   d_range flat_params = (0, 0) \<and> premium flat_params = 0 \<and> active flat_params = 1 \<and>
   sample flat_params = 1 \<and> steps flat_params = 1 \<and>
   (\<exists>m. run flat_params switch_setup_rand (\<lambda>t. flat_step_rand) = Inr m \<and>
        educ (workers m ! 0) \<and> wage (workers m ! 0) = 10 \<and> profit (firms m ! 0) = 0)"
proof -
  have h: "n_workers flat_params = 2" "prod_range flat_params = (10, 10)"
    "d_range flat_params = (0, 0)" "premium flat_params = 0" "active flat_params = 1"
    "sample flat_params = 1" "steps flat_params = 1"
    by (simp_all add: flat_params_def)
  have coin: "[True, False] ! (rnd_coin flat_step_rand 0 0 mod 2)"
    by (simp add: flat_step_rand_def)
  from flat_run[OF h, of switch_setup_rand "\<lambda>t. flat_step_rand"] coin
  have "\<exists>m. run flat_params switch_setup_rand (\<lambda>t. flat_step_rand) = Inr m \<and>
        educ (workers m ! 0) \<and> wage (workers m ! 0) = 10 \<and> profit (firms m ! 0) = 0"
    by auto
  with h show ?thesis by simp
qed

text \<open>
  C6.  As stated, the claim fails for \<open>weighted = False\<close>: with no active firm
  \<open>calc_avg_d\<close> returns NaN, which is neither a number nor an error.
\<close>

theorem calc_avg_d_unweighted_nan:
  "filter (\<lambda>f. 0 < size_f f) (firms idle_market) = [] \<and> calc_avg_d idle_market False = NaN"
  by code_simp

text \<open>
  C6, amended.  In a state where no firm has \<open>size > 0\<close>, \<open>calc_avg_d\<close> with
  \<open>weighted = True\<close> returns the number 0, and with \<open>weighted = False\<close> it returns NaN
  without raising an error; in a state where some firm has \<open>size > 0\<close> it returns a
  number in both cases.
\<close>

theorem calc_avg_d_no_active_firm:
  "((\<forall>f\<in>set (firms m). size_f f = 0) \<longrightarrow>
      calc_avg_d m True = Num 0 \<and> calc_avg_d m False = NaN) \<and>
   ((\<exists>f\<in>set (firms m). 0 < size_f f) \<longrightarrow> (\<exists>x. calc_avg_d m wtd = Num x))"
  by (auto simp add: calc_avg_d_def Let_def filter_empty_conv)

theorem calc_avg_d_no_active_firm_witness:
  "map size_f (firms idle_market) = [0] \<and>
   calc_avg_d idle_market True = Num 0 \<and> calc_avg_d idle_market False = NaN \<and>
   map size_f (firms switch_market) = [1, 0, 0] \<and>
   (\<exists>x. calc_avg_d switch_market False = Num x)"
proof -
  have a: "\<forall>f\<in>set (firms idle_market). size_f f = 0" by code_simp
  have b: "\<exists>f\<in>set (firms switch_market). 0 < size_f f" by code_simp
  have c: "map size_f (firms idle_market) = [0]" "map size_f (firms switch_market) = [1, 0, 0]"
    by code_simp+
  show ?thesis
    using calc_avg_d_no_active_firm[of idle_market] calc_avg_d_no_active_firm[of switch_market False] a b c
    by blast
qed



text \<open>
  C8.  Take a run whose premium and whose lower bound of the productivity range are not
  negative, any state \<open>m\<close> the run reaches and any later state \<open>m'\<close> of it, for any
  random inputs.  A worker whose \<open>educ\<close> flag is true in \<open>m\<close> has it true in \<open>m'\<close>, with
  the same productivity: the flag is never reset and the decision is not taken again.
  And no worker has a smaller productivity in \<open>m'\<close> than in \<open>m\<close>.
\<close>

theorem education_monotone:
  assumes "reachable p m" and "evolves p m m'" and "w < length (workers m)"
    and "0 \<le> premium p" and "0 \<le> fst (prod_range p)"
  shows "(educ (workers m ! w) \<longrightarrow>
            educ (workers m' ! w) \<and> prod_w (workers m' ! w) = prod_w (workers m ! w)) \<and>
         prod_w (workers m ! w) \<le> prod_w (workers m' ! w)"
proof -
  have nn: "0 \<le> prod_w (workers m ! w)"
    using reachable_prod_nonneg[OF assms(1,4,5)] assms(3) by simp
  have "worker_later (premium p) (workers m ! w) (workers m' ! w)"
    using evolves_later[OF assms(2)] assms(3) by (simp add: later_def)
  then show ?thesis using nn assms(4) by (simp add: worker_later_def)
qed

theorem education_monotone_witness:
  "reachable class0_params class0_market \<and>
   reachable class0_params class0_market_1 \<and>
   evolves class0_params class0_market class0_market_2 \<and>
   evolves class0_params class0_market_1 class0_market_2 \<and>
   0 \<le> premium class0_params \<and> 0 \<le> fst (prod_range class0_params) \<and>
   map (\<lambda>me. (educ me, prod_w me)) (workers class0_market) = [(False, 13), (False, 13)] \<and>
   map (\<lambda>me. (educ me, prod_w me)) (workers class0_market_1) = [(True, 78 / 5), (False, 13)] \<and>
   educ (workers class0_market_2 ! 0) \<and>
   prod_w (workers class0_market_2 ! 0) = prod_w (workers class0_market_1 ! 0) \<and>
   prod_w (workers class0_market ! 0) \<le> prod_w (workers class0_market_2 ! 0)"
proof -
  have s0: "market_setup class0_params class0_setup_rand = Inr class0_market"
    unfolding class0_market_def by code_simp
  have s1: "market_step class0_params switch_step_rand class0_market = Inr class0_market_1"
    unfolding class0_market_1_def by code_simp
  have s2: "market_step class0_params switch_step_rand class0_market_1 = Inr class0_market_2"
    unfolding class0_market_2_def by code_simp
  have r0: "reachable class0_params class0_market" by (rule after_setup[OF s0])
  have r1: "reachable class0_params class0_market_1" by (rule after_step[OF r0 s1])
  have e1: "evolves class0_params class0_market_1 class0_market_2"
    by (rule evolves_step[OF evolves_refl s2])
  have e0: "evolves class0_params class0_market class0_market_2"
    by (rule evolves_step[OF evolves_step[OF evolves_refl s1] s2])
  have v: "0 \<le> premium class0_params" "0 \<le> fst (prod_range class0_params)"
    "map (\<lambda>me. (educ me, prod_w me)) (workers class0_market) = [(False, 13), (False, 13)]"
    "map (\<lambda>me. (educ me, prod_w me)) (workers class0_market_1) = [(True, 78 / 5), (False, 13)]"
    by code_simp+
  have w: "0 < length (workers class0_market)" "0 < length (workers class0_market_1)"
    "educ (workers class0_market_1 ! 0)"
    by code_simp+
  show ?thesis
    using education_monotone[OF r1 e1 w(2) v(1,2)] education_monotone[OF r0 e0 w(1) v(1,2)]
      r0 r1 e0 e1 v w by simp
qed

text \<open>
  C9.  \<open>Market.update\<close> appends to the recorded data one row per worker and one row per
  firm, holding the recorded variables of the agent, and leaves the workers and the
  firms as they are.
\<close>

theorem market_update_pure_read:
  "workers (market_update m) = workers m \<and> firms (market_update m) = firms m \<and>
   recorded (market_update m) =
     recorded m @ [(map worker_record (workers m), map firm_record (firms m))] \<and>
   length (map worker_record (workers m)) = length (workers m) \<and>
   length (map firm_record (firms m)) = length (firms m) \<and>
   worker_record me =
     WorkerRow (d_class me) (prod_w me) (hrs me) (employer me) (employer_id me)
       (employer_size me) (wage me) (educ me) (search me) (switch me) \<and>
   firm_record f =
     FirmRow (d_factor f) (size_f f) (size_0 f) (size_1 f) (output_f f) (output_0 f)
       (output_1 f) (costs f) (revenue f) (profit f)"
  by (simp add: market_update_def worker_record_def firm_record_def)

text \<open>
  C10.  \<open>education_decision\<close> divides by the worker's productivity: it raises
  ZeroDivisionError when the productivity is 0 and returns otherwise.  A productivity of
  0 is reachable: a run whose productivity range starts at 0 can fail with that error.
\<close>

theorem education_decision_zero_prod:
  "(prod_w (workers m ! w) = 0 \<longrightarrow>
      education_decision w prem wtd coin m = Inl ZeroDivisionError) \<and>
   (prod_w (workers m ! w) \<noteq> 0 \<longrightarrow> (\<exists>m'. education_decision w prem wtd coin m = Inr m')) \<and>
   (\<exists>p r rs. fst (prod_range p) = 0 \<and> run p r rs = Inl ZeroDivisionError)"
proof -
  have "fst (prod_range zero_prod_params) = 0 \<and>
        run zero_prod_params switch_setup_rand (\<lambda>t. switch_step_rand) = Inl ZeroDivisionError"
    by code_simp
  then have "\<exists>p r rs. fst (prod_range p) = 0 \<and> run p r rs = Inl ZeroDivisionError"
    by blast
  then show ?thesis
    by (simp add: education_decision_def Let_def split: pyfloat.splits)
qed

theorem education_decision_zero_prod_witness:
  "prod_w (workers (projr (market_setup zero_prod_params switch_setup_rand)) ! 0) = 0 \<and>
   education_decision 0 (1 / 5) True (\<lambda>k. 0)
     (projr (market_setup zero_prod_params switch_setup_rand)) = Inl ZeroDivisionError \<and>
   prod_w (workers switch_market ! 0) \<noteq> 0 \<and>
   (\<exists>m'. education_decision 0 (1 / 5) True (\<lambda>k. 0) switch_market = Inr m')"
proof -
  have a: "prod_w (workers (projr (market_setup zero_prod_params switch_setup_rand)) ! 0) = 0"
    by code_simp
  have b: "prod_w (workers switch_market ! 0) \<noteq> 0" by code_simp
  show ?thesis
    using education_decision_zero_prod[of "projr (market_setup zero_prod_params switch_setup_rand)" 0
        "1 / 5" True "\<lambda>k. 0"]
      education_decision_zero_prod[of switch_market 0 "1 / 5" True "\<lambda>k. 0"] a b
    by blast
qed

end
